theory Spec2Isabelle
  imports Main "HOL-Library.Word"
begin

section \<open>Machine types and faults\<close>

text \<open>
  The client is built for a 64-bit Genode target: \<open>Genode::size_t\<close> and
  \<open>unsigned long\<close> are 64-bit words, \<open>long\<close> is read through \<open>sint\<close>,
  \<open>int\<close> and \<open>unsigned\<close> are 32-bit words. Bytes are \<open>char\<close>.
\<close>

type_synonym size_t = "64 word"
type_synonym uint = "32 word"

text \<open>
  What ends a call other than a return. \<open>Parse\<close>, \<open>Out_of_ram\<close> and
  \<open>Other_exception\<close> are C++ exceptions (the four subclasses of
  \<open>bencode::parse_exception\<close>, \<open>Genode::Out_of_ram\<close>, any other). The
  remaining ones are no exceptions and no handler catches them: a loop that never exits,
  a read or write outside the storage, a division by zero, a member call through a null
  pointer.
\<close>

datatype parse_exception = not_natural_number | reached_end | invalid_buffer | unexpected_type

datatype fault =
    Parse parse_exception
  | Out_of_ram
  | Other_exception
  | Diverges
  | Bad_access
  | Division_by_zero
  | Null_this

section \<open>Backing store\<close>

text \<open>
  \<open>Genode::Allocator\<close> is a platform interface. It is modelled over a flat memory of
  bytes in which an address is mapped or not: \<open>alloc\<close> maps a range no earlier
  allocation has used, \<open>free\<close> unmaps it, and a read or write that touches an
  unmapped address is no value. A fresh range holds whatever \<open>fresh\<close> says, so
  nothing follows from its initial contents. \<open>quota\<close> is the RAM left: an allocation
  beyond it fails.
\<close>

type_synonym ptr = nat

record heap =
  cells :: "nat \<Rightarrow> char option"
  brk :: nat
  quota :: nat
  fresh :: "nat \<Rightarrow> char"

definition alloc :: "heap \<Rightarrow> nat \<Rightarrow> (heap \<times> ptr) option" where
  "alloc h n =
     (if quota h < n then None
      else Some (h\<lparr>cells := (\<lambda>a. if brk h \<le> a \<and> a < brk h + n then Some (fresh h a) else cells h a),
                    brk := brk h + n,
                    quota := quota h - n\<rparr>,
                 brk h))"

definition free :: "heap \<Rightarrow> ptr \<Rightarrow> nat \<Rightarrow> heap" where
  "free h p n =
     h\<lparr>cells := (\<lambda>a. if p \<le> a \<and> a < p + n then None else cells h a), quota := quota h + n\<rparr>"

definition load :: "heap \<Rightarrow> ptr \<Rightarrow> nat \<Rightarrow> string option" where
  "load h p n =
     (if list_all (\<lambda>a. cells h a \<noteq> None) [p..<p + n]
      then Some (map (\<lambda>a. the (cells h a)) [p..<p + n]) else None)"

definition store :: "heap \<Rightarrow> ptr \<Rightarrow> string \<Rightarrow> heap option" where
  "store h p xs =
     (if list_all (\<lambda>a. cells h a \<noteq> None) [p..<p + length xs]
      then Some (h\<lparr>cells := (\<lambda>a. if p \<le> a \<and> a < p + length xs then Some (xs ! (a - p)) else cells h a)\<rparr>)
      else None)"

definition memcpy :: "heap \<Rightarrow> ptr \<Rightarrow> ptr \<Rightarrow> nat \<Rightarrow> heap option" where
  "memcpy h dst src n = (case load h src n of None \<Rightarrow> None | Some xs \<Rightarrow> store h dst xs)"

section \<open>Strechy\_Buffer (util.h)\<close>

record Strechy_Buffer =
  capacity :: size_t
  length' :: size_t
  buffer :: ptr
  consecutive_small_requests :: size_t

text \<open>\<open>while (newcap < request) newcap *= 2;\<close> on 64-bit words. \<open>None\<close> is the loop
  that never exits (\<open>newcap\<close> has wrapped to 0).\<close>

partial_function (option) double_until :: "size_t \<Rightarrow> size_t \<Rightarrow> size_t option" where
  "double_until newcap request =
     (if newcap < request then double_until (newcap * 2) request else Some newcap)"

declare double_until.simps [code]

definition calculate_reservation ::
  "Strechy_Buffer \<Rightarrow> size_t \<Rightarrow> fault + (size_t \<times> Strechy_Buffer)" where
  "calculate_reservation sb request =
     (let sb1 = (if request < capacity sb div 4
                 then sb\<lparr>consecutive_small_requests := consecutive_small_requests sb + 1\<rparr>
                 else sb\<lparr>consecutive_small_requests := 0\<rparr>)
      in if capacity sb1 < request then
           (case double_until (capacity sb1) request of
              None \<Rightarrow> Inl Diverges
            | Some newcap \<Rightarrow> Inr (newcap, sb1))
         else if 8 < consecutive_small_requests sb1 then Inr (min (capacity sb1 div 2) 1, sb1)
         else Inr (capacity sb1, sb1))"

definition resize ::
  "heap \<Rightarrow> Strechy_Buffer \<Rightarrow> size_t \<Rightarrow> fault + (heap \<times> Strechy_Buffer \<times> ptr)" where
  "resize h sb newcap =
     (if newcap \<le> capacity sb then Inr (h, sb, buffer sb)
      else case alloc h (unat newcap) of
             None \<Rightarrow> Inl Out_of_ram
           | Some (h1, newbuf) \<Rightarrow>
               (case memcpy h1 newbuf (buffer sb) (unat (length' sb)) of
                  None \<Rightarrow> Inl Bad_access
                | Some h2 \<Rightarrow>
                    Inr (free h2 (buffer sb) (unat (capacity sb)),
                         sb\<lparr>capacity := newcap, buffer := newbuf\<rparr>,
                         newbuf)))"

definition reset :: "Strechy_Buffer \<Rightarrow> Strechy_Buffer" where
  "reset sb = sb\<lparr>length' := 0\<rparr>"

text \<open>\<open>reserve_reset<T>(request)\<close> with \<open>sizeof(T) = 1\<close> (\<open>unsigned char\<close>, \<open>char\<close>).\<close>

definition reserve_reset ::
  "heap \<Rightarrow> Strechy_Buffer \<Rightarrow> size_t \<Rightarrow> fault + (heap \<times> Strechy_Buffer \<times> ptr)" where
  "reserve_reset h sb request =
     (case calculate_reservation (reset sb) (request * 1) of
        Inl e \<Rightarrow> Inl e
      | Inr (newcap, sb1) \<Rightarrow> resize h sb1 newcap)"

definition reserve_addnl ::
  "heap \<Rightarrow> Strechy_Buffer \<Rightarrow> size_t \<Rightarrow> fault + (heap \<times> Strechy_Buffer \<times> ptr)" where
  "reserve_addnl h sb request =
     (case calculate_reservation sb (request + length' sb) of
        Inl e \<Rightarrow> Inl e
      | Inr (newcap, sb1) \<Rightarrow>
          (case resize h sb1 newcap of
             Inl e \<Rightarrow> Inl e
           | Inr (h1, sb2, p) \<Rightarrow> Inr (h1, sb2, p + unat (length' sb2))))"

definition extend_length :: "Strechy_Buffer \<Rightarrow> size_t \<Rightarrow> Strechy_Buffer" where
  "extend_length sb addnl = sb\<lparr>length' := length' sb + addnl\<rparr>"

definition base :: "Strechy_Buffer \<Rightarrow> ptr" where
  "base sb = buffer sb"

text \<open>A run of \<open>reserve_reset\<close> calls on one buffer, one request after the other.\<close>

fun reserve_resets ::
  "heap \<Rightarrow> Strechy_Buffer \<Rightarrow> size_t list \<Rightarrow> fault + (heap \<times> Strechy_Buffer)" where
  "reserve_resets h sb [] = Inr (h, sb)"
| "reserve_resets h sb (r # rs) =
     (case reserve_reset h sb r of
        Inl e \<Rightarrow> Inl e
      | Inr (h1, sb1, p) \<Rightarrow> reserve_resets h1 sb1 rs)"

section \<open>strview (string\_view.h)\<close>

text \<open>
  A view is its start address and the bytes it covers (\<open>length\<close> is their number).
\<close>

record strview =
  start :: nat
  bytes :: string

definition sv_length :: "strview \<Rightarrow> size_t" where
  "sv_length s = of_nat (length (bytes s))"

text \<open>\<open>Genode::memcmp\<close> over the first \<open>n\<close> bytes: the difference of the first two
  bytes that differ, 0 when none does.\<close>

fun memcmp :: "string \<Rightarrow> string \<Rightarrow> nat \<Rightarrow> int" where
  "memcmp (x # xs) (y # ys) (Suc n) =
     (if x \<noteq> y then int (of_char x) - int (of_char y) else memcmp xs ys n)"
| "memcmp xs ys n = 0"

definition cmp :: "strview \<Rightarrow> strview \<Rightarrow> int" where
  "cmp s rhs = memcmp (bytes s) (bytes rhs) (unat (min (sv_length s) (sv_length rhs)))"

definition strview_ne :: "strview \<Rightarrow> strview \<Rightarrow> bool" where
  "strview_ne s rhs = (start rhs \<noteq> start s \<and> cmp s rhs \<noteq> 0)"

definition strview_eq :: "strview \<Rightarrow> strview \<Rightarrow> bool" where
  "strview_eq s rhs = (\<not> strview_ne s rhs)"

definition strview_lt :: "strview \<Rightarrow> strview \<Rightarrow> bool" where
  "strview_lt s rhs = (cmp s rhs < 0)"

section \<open>Mapping (util.h)\<close>

text \<open>
  A node of \<open>Genode::Avl_tree\<close> with its two children; \<open>Null\<close> is the null pointer.
  \<open>child t side\<close> is \<open>Avl_node::child(side)\<close>: the left child for \<open>false\<close>, the
  right one for \<open>true\<close>. The keys are \<open>strview\<close>s, as in \<open>Proto_Map\<close>.
\<close>

datatype 'v Mapping =
    Null
  | Mapping (child0: "'v Mapping") (key: strview) (val: 'v) (child1: "'v Mapping")

definition higher :: "strview \<Rightarrow> strview \<Rightarrow> bool" where
  "higher k other = strview_lt k other"

fun search :: "'v Mapping \<Rightarrow> strview \<Rightarrow> 'v Mapping" where
  "search Null search_key = Null"
| "search (Mapping l k v r) search_key =
     (if strview_ne k search_key
      then search (if higher k search_key then r else l) search_key
      else Mapping l k v r)"

section \<open>The bencode decoder (bencode\_defs.h, bencode\_decode.h, bencode\_decode.cc)\<close>

datatype kind = END | REC_END | STRING | INTEGER | LIST | DICT | RAW

fun kind_char :: "kind \<Rightarrow> char" where
  "kind_char END = CHR 0x00"
| "kind_char REC_END = CHR ''e''"
| "kind_char STRING = CHR '':''"
| "kind_char INTEGER = CHR ''i''"
| "kind_char LIST = CHR ''l''"
| "kind_char DICT = CHR ''d''"
| "kind_char RAW = CHR ''R''"

text \<open>
  The two number parsers of Genode's \<open>util/string.h\<close> are library code outside this
  repository; the decoder takes them as parameters. Each reads the characters at a
  cursor and gives the value it stores in its result argument (0 when it stores none:
  both call sites initialise the result to 0) and its return value, the number of
  characters consumed. \<open>ascii_to\<close> is the overload for \<open>long\<close>; its value is the
  64-bit pattern, read as signed by \<open>sint\<close>.
\<close>

record genode =
  ascii_to_unsigned :: "string \<Rightarrow> size_t \<times> size_t"
  ascii_to :: "string \<Rightarrow> size_t \<times> size_t"

text \<open>The memory the decoder runs over is the view it was given: \<open>deref\<close> reads one
  byte, \<open>cstr\<close> is what a library routine scanning from an address sees.\<close>

definition deref :: "strview \<Rightarrow> nat \<Rightarrow> char option" where
  "deref mem a =
     (if start mem \<le> a \<and> a < start mem + length (bytes mem)
      then Some (bytes mem ! (a - start mem)) else None)"

definition cstr :: "strview \<Rightarrow> nat \<Rightarrow> string" where
  "cstr mem a = (if start mem \<le> a then drop (a - start mem) (bytes mem) else [])"

record object =
  len :: size_t
  pos :: nat
  last' :: nat

text \<open>\<open>object(const char* fst, const char* lst)\<close>.\<close>

definition object :: "genode \<Rightarrow> strview \<Rightarrow> nat \<Rightarrow> nat \<Rightarrow> object" where
  "object lib mem fst' lst =
     (case ascii_to_unsigned lib (cstr mem fst') of
        (v, n) \<Rightarrow>
          \<lparr>len = (if v \<noteq> 0 then v + 1 else v),
           pos = fst' + unat (min n (of_nat lst - of_nat fst' - 1)),
           last' = lst\<rparr>)"

text \<open>\<open>object(const char* fst, Genode::size_t len)\<close>.\<close>

definition object_len :: "genode \<Rightarrow> strview \<Rightarrow> nat \<Rightarrow> size_t \<Rightarrow> object" where
  "object_len lib mem fst' n = object lib mem fst' (fst' + unat n)"

definition rem :: "object \<Rightarrow> size_t" where
  "rem ob = of_nat (last' ob) - of_nat (pos ob)"

text \<open>\<open>type()\<close> is the byte at the cursor, cast to the enumeration: any byte can come
  out, also one that is no enumerator.\<close>

definition type' :: "strview \<Rightarrow> object \<Rightarrow> fault + char" where
  "type' mem ob = (case deref mem (pos ob) of None \<Rightarrow> Inl Bad_access | Some c \<Rightarrow> Inr c)"

definition end' :: "object \<Rightarrow> nat" where
  "end' ob = pos ob + unat (len ob)"

definition validate_type :: "strview \<Rightarrow> object \<Rightarrow> kind \<Rightarrow> fault + unit" where
  "validate_type mem ob expected =
     (case type' mem ob of
        Inl e \<Rightarrow> Inl e
      | Inr c \<Rightarrow>
          if c \<noteq> kind_char expected then
            (if c \<in> set (map kind_char [DICT, STRING, LIST, INTEGER, END, REC_END])
             then Inl (Parse unexpected_type)
             else Inl (Parse invalid_buffer))
          else Inr ())"

definition validate_len :: "object \<Rightarrow> size_t \<Rightarrow> fault + unit" where
  "validate_len ob n = (if rem ob < n then Inl (Parse invalid_buffer) else Inr ())"

definition string' :: "strview \<Rightarrow> object \<Rightarrow> fault + strview" where
  "string' mem ob =
     (case validate_type mem ob STRING of
        Inl e \<Rightarrow> Inl e
      | Inr _ \<Rightarrow>
          (case validate_len ob (len ob) of
             Inl e \<Rightarrow> Inl e
           | Inr _ \<Rightarrow>
               Inr \<lparr>start = pos ob + 1,
                    bytes = take (unat (if len ob \<noteq> 0 then len ob - 1 else 0))
                              (cstr mem (pos ob + 1))\<rparr>))"

text \<open>\<open>integer()\<close> caches the length it measured in \<open>_len\<close>: the object comes back
  with the value.\<close>

definition integer :: "genode \<Rightarrow> strview \<Rightarrow> object \<Rightarrow> fault + (size_t \<times> object)" where
  "integer lib mem ob =
     (case validate_type mem ob INTEGER of
        Inl e \<Rightarrow> Inl e
      | Inr _ \<Rightarrow>
          (case ascii_to lib (cstr mem (pos ob + 1)) of
             (retval, n) \<Rightarrow> Inr (retval, ob\<lparr>len := n + 2\<rparr>)))"

definition natural :: "genode \<Rightarrow> strview \<Rightarrow> object \<Rightarrow> fault + (size_t \<times> object)" where
  "natural lib mem ob =
     (case integer lib mem ob of
        Inl e \<Rightarrow> Inl e
      | Inr (num, ob1) \<Rightarrow>
          if sint num < 0 then Inl (Parse not_natural_number) else Inr (num, ob1))"

text \<open>\<open>node<T>\<close> is instantiated at \<open>bencode::list\<close> and \<open>bencode::dict\<close>. A list is
  constructed as an object; a dict reads a key object first and is the object that
  starts where the key ends.\<close>

datatype T = List_T | Dict_T

record dict =
  node :: object
  key' :: object

definition dict_create :: "genode \<Rightarrow> strview \<Rightarrow> nat \<Rightarrow> nat \<Rightarrow> dict" where
  "dict_create lib mem p l =
     (let key_obj = object lib mem p l
      in \<lparr>node = object lib mem (end' key_obj) l, key' = key_obj\<rparr>)"

definition construct :: "T \<Rightarrow> genode \<Rightarrow> strview \<Rightarrow> nat \<Rightarrow> nat \<Rightarrow> object" where
  "construct t lib mem p l =
     (case t of List_T \<Rightarrow> object lib mem p l | Dict_T \<Rightarrow> node (dict_create lib mem p l))"

definition list' :: "genode \<Rightarrow> strview \<Rightarrow> object \<Rightarrow> fault + object" where
  "list' lib mem ob =
     (case validate_type mem ob LIST of
        Inl e \<Rightarrow> Inl e
      | Inr _ \<Rightarrow> Inr (object lib mem (pos ob + 1) (last' ob)))"

definition dict' :: "genode \<Rightarrow> strview \<Rightarrow> object \<Rightarrow> fault + dict" where
  "dict' lib mem ob =
     (case validate_type mem ob DICT of
        Inl e \<Rightarrow> Inl e
      | Inr _ \<Rightarrow> Inr (dict_create lib mem (pos ob + 1) (last' ob)))"

text \<open>
  \<open>node::next()\<close> and \<open>node::skipall()\<close> call each other. The first argument bounds
  the calls and loop rounds still allowed; \<open>None\<close> says the bound was reached. Beside
  its result every call gives the number of \<open>next\<close>/\<open>skipall\<close> activations that were
  on the call stack at the deepest point, itself included. \<open>skipall_from\<close> is the
  \<open>while\<close> loop of \<open>skipall\<close>, which stays within one activation.
\<close>

fun next_d :: "nat \<Rightarrow> T \<Rightarrow> genode \<Rightarrow> strview \<Rightarrow> object \<Rightarrow> ((fault + object) \<times> nat) option"
  and skipall_from :: "nat \<Rightarrow> T \<Rightarrow> genode \<Rightarrow> strview \<Rightarrow> object \<Rightarrow> ((fault + nat) \<times> nat) option"
where
  "next_d 0 t lib mem ob = None"
| "next_d (Suc k) t lib mem ob =
     (if len ob = 0 then
        (case type' mem ob of
           Inl e \<Rightarrow> Some (Inl e, 1)
         | Inr c \<Rightarrow>
             if c = kind_char REC_END then Some (Inl (Parse reached_end), 1)
             else if c = kind_char INTEGER then
               (case integer lib mem ob of
                  Inl e \<Rightarrow> Some (Inl e, 1)
                | Inr (v, ob1) \<Rightarrow> Some (Inr (construct t lib mem (pos ob1 + unat (len ob1)) (last' ob1)), 1))
             else if c = kind_char LIST \<or> c = kind_char DICT then
               (case skipall_from k t lib mem (construct t lib mem (pos ob + 1) (last' ob)) of
                  None \<Rightarrow> None
                | Some (Inl e, d) \<Rightarrow> Some (Inl e, 2 + d)
                | Some (Inr p, d) \<Rightarrow>
                    Some (Inr (construct t lib mem
                                 (pos ob + unat (of_nat p - of_nat (pos ob) :: size_t)) (last' ob)),
                          2 + d))
             else if c = kind_char STRING then
               Some (Inr (construct t lib mem (pos ob + 1) (last' ob)), 1)
             else Some (Inl (Parse invalid_buffer), 1))
      else Some (Inr (construct t lib mem (pos ob + unat (len ob)) (last' ob)), 1))"
| "skipall_from 0 t lib mem ob = None"
| "skipall_from (Suc k) t lib mem ob =
     (case type' mem ob of
        Inl e \<Rightarrow> Some (Inl e, 0)
      | Inr c \<Rightarrow>
          if c \<noteq> kind_char REC_END then
            (case next_d k t lib mem ob of
               None \<Rightarrow> None
             | Some (Inl e, d) \<Rightarrow> Some (Inl e, d)
             | Some (Inr ob1, d) \<Rightarrow>
                 (case skipall_from k t lib mem ob1 of
                    None \<Rightarrow> None
                  | Some (r, d1) \<Rightarrow> Some (r, max d d1)))
          else Some (Inr (pos ob + 1), 0))"

definition skipall :: "nat \<Rightarrow> T \<Rightarrow> genode \<Rightarrow> strview \<Rightarrow> object \<Rightarrow> ((fault + nat) \<times> nat) option" where
  "skipall k t lib mem ob =
     (case skipall_from k t lib mem ob of None \<Rightarrow> None | Some (r, d) \<Rightarrow> Some (r, 1 + d))"

definition next' :: "nat \<Rightarrow> T \<Rightarrow> genode \<Rightarrow> strview \<Rightarrow> object \<Rightarrow> (fault + object) option" where
  "next' k t lib mem ob = map_option fst (next_d k t lib mem ob)"

text \<open>
  A reading of the two library parsers, for running the decoder on concrete bytes.
  Digits are read while there are any and the value wraps at 64 bits.
  \<open>ascii_to_unsigned\<close> is called with base 0: behind a prefix \<open>0x\<close> or \<open>0X\<close> it reads
  hexadecimal digits, and the prefix counts as consumed; otherwise it reads decimal
  digits. \<open>ascii_to\<close> accepts one leading sign and reads decimal digits.
  \<open>digit\<close> is \<open>Genode::digit(c, hex)\<close>, with \<open>None\<close> for its -1.
\<close>

definition digit :: "char \<Rightarrow> bool \<Rightarrow> nat option" where
  "digit c hex =
     (if (48::nat) \<le> of_char c \<and> of_char c \<le> (57::nat) then Some (of_char c - 48)
      else if hex \<and> (97::nat) \<le> of_char c \<and> of_char c \<le> (102::nat) then Some (of_char c - 97 + 10)
      else if hex \<and> (65::nat) \<le> of_char c \<and> of_char c \<le> (70::nat) then Some (of_char c - 65 + 10)
      else None)"

fun hex_digits :: "string \<Rightarrow> size_t \<Rightarrow> size_t \<Rightarrow> size_t \<times> size_t" where
  "hex_digits [] v i = (v, i)"
| "hex_digits (c # cs) v i =
     (case digit c True of
        None \<Rightarrow> (v, i)
      | Some d \<Rightarrow> hex_digits cs (v * 16 + of_nat d) (i + 1))"

fun dec_digits :: "string \<Rightarrow> size_t \<Rightarrow> size_t \<Rightarrow> size_t \<times> size_t" where
  "dec_digits [] v i = (v, i)"
| "dec_digits (c # cs) v i =
     (if (48::nat) \<le> of_char c \<and> of_char c \<le> (57::nat)
      then dec_digits cs (v * 10 + of_nat (of_char c - 48)) (i + 1)
      else (v, i))"

definition dec_unsigned :: "string \<Rightarrow> size_t \<times> size_t" where
  "dec_unsigned s =
     (case s of
        c0 # c1 # cs \<Rightarrow>
          if c0 = CHR ''0'' \<and> (c1 = CHR ''x'' \<or> c1 = CHR ''X'') then hex_digits cs 0 2
          else dec_digits s 0 0
      | _ \<Rightarrow> dec_digits s 0 0)"

definition dec_long :: "string \<Rightarrow> size_t \<times> size_t" where
  "dec_long s =
     (case s of
        [] \<Rightarrow> (0, 0)
      | c # cs \<Rightarrow>
          if c = CHR ''-'' then
            (case dec_digits cs 0 0 of (v, j) \<Rightarrow> if j = 0 then (0, 1) else (- v, 1 + j))
          else if c = CHR ''+'' then
            (case dec_digits cs 0 0 of (v, j) \<Rightarrow> if j = 0 then (0, 1) else (v, 1 + j))
          else dec_digits s 0 0)"

definition decimal :: genode where
  "decimal = \<lparr>ascii_to_unsigned = dec_unsigned, ascii_to = dec_long\<rparr>"

section \<open>Proto\_Map (protocol\_map.h)\<close>

text \<open>
  A handler is a function of the list it is called with; what it does is its value, and
  it may end in a fault. \<open>default'\<close> is \<open>_default\<close>, \<open>str_tab\<close> the AVL tree of the
  registered entries.
\<close>

record 'r Proto_Map =
  default' :: "strview \<Rightarrow> object \<Rightarrow> fault + 'r"
  str_tab :: "(object \<Rightarrow> fault + 'r) Mapping"

text \<open>\<open>void dispatch(strview name, bencode::list ent)\<close>. \<open>_str_tab.first()\<close> is the root,
  null for an empty table; \<open>search\<close> is then called through a null pointer.\<close>

definition dispatch_entry :: "'r Proto_Map \<Rightarrow> strview \<Rightarrow> object \<Rightarrow> fault + 'r" where
  "dispatch_entry pm name ent =
     (case str_tab pm of
        Null \<Rightarrow> Inl Null_this
      | Mapping l k v r \<Rightarrow>
          (case search (str_tab pm) name of
             Null \<Rightarrow> default' pm name ent
           | Mapping l1 k1 v1 r1 \<Rightarrow> v1 ent))"

text \<open>What the two \<open>catch\<close> clauses of \<open>dispatch\<close> make of a fault: an exception
  becomes the result \<open>false\<close>, anything else is not caught.\<close>

fun caught :: "fault \<Rightarrow> fault + bool \<times> 'r option" where
  "caught (Parse e) = Inr (False, None)"
| "caught Out_of_ram = Inr (False, None)"
| "caught Other_exception = Inr (False, None)"
| "caught f = Inl f"

text \<open>\<open>bool dispatch(strview raw_string)\<close>. The result is the returned flag and, when a
  handler ran to its end, what it did. The first argument bounds \<open>next\<close>.\<close>

definition dispatch ::
  "nat \<Rightarrow> genode \<Rightarrow> 'r Proto_Map \<Rightarrow> strview \<Rightarrow> (fault + bool \<times> 'r option) option" where
  "dispatch k lib pm raw_string =
     (if sv_length raw_string = 0 then Some (Inr (False, None))
      else
        (case list' lib raw_string
                (object_len lib raw_string (start raw_string) (sv_length raw_string - 1)) of
           Inl e \<Rightarrow> Some (caught e)
         | Inr lst \<Rightarrow>
             (case string' raw_string lst of
                Inl e \<Rightarrow> Some (caught e)
              | Inr name \<Rightarrow>
                  (case next' k List_T lib raw_string lst of
                     None \<Rightarrow> None
                   | Some (Inl e) \<Rightarrow> Some (caught e)
                   | Some (Inr ent) \<Rightarrow>
                       (case dispatch_entry pm name ent of
                          Inl e \<Rightarrow> Some (caught e)
                        | Inr r \<Rightarrow> Some (Inr (True, Some r)))))))"

section \<open>The client (client.h, client.cc, protocol.h, select\_io.h)\<close>

record idxview =
  istart :: size_t
  ilength :: size_t

text \<open>\<open>idxview::slice(base)\<close> is the view \<open>(base + start, length)\<close>; its bytes are what
  memory holds there now, none if the range is not mapped.\<close>

definition slice :: "heap \<Rightarrow> idxview \<Rightarrow> ptr \<Rightarrow> strview option" where
  "slice h iv b =
     map_option (\<lambda>bs. \<lparr>start = b + unat (istart iv), bytes = bs\<rparr>)
       (load h (b + unat (istart iv)) (unat (ilength iv)))"

text \<open>\<open>Protocol::Header\<close>: four one-byte fields, then the payload length in network
  byte order. \<open>sizeof(Protocol::Header) = 8\<close>.\<close>

definition Header_length :: "string \<Rightarrow> uint" where
  "Header_length hdr =
     word_of_nat (((of_char (hdr ! 4) * 256 + of_char (hdr ! 5)) * 256 + of_char (hdr ! 6)) * 256
                  + of_char (hdr ! 7))"

definition chunk_idx :: nat where
  "chunk_idx = 3"

definition Header_field :: "string \<Rightarrow> nat \<Rightarrow> char" where
  "Header_field hdr idx = hdr ! idx"

record Buffered_Read_Handler =
  offset :: size_t
  remaining :: size_t
  rbuffer :: ptr

definition respond_with :: "Buffered_Read_Handler \<Rightarrow> size_t \<Rightarrow> ptr \<Rightarrow> Buffered_Read_Handler" where
  "respond_with rh n buf = rh\<lparr>offset := 0, remaining := n, rbuffer := buf\<rparr>"

text \<open>What the client does to the outside, in the order it does it.\<close>

datatype draw_error =
    No_rgb_data
  | Lz4_smaller_than_header
  | Lz4_malformed uint uint
  | Zlib_failed uint size_t
  | Uncompressed_improper_length uint size_t
  | Unexpected_format string

datatype event =
    On_err
  | Dispatch strview "strview option" bool
  | Invalid_packet_warning size_t
  | Call_LZ4_decompress_safe ptr ptr size_t uint
  | Call_uncompress ptr size_t ptr size_t
  | Update_region size_t uint uint uint uint uint ptr
  | Buffer_refresh size_t
  | Log_error draw_error
  | Damage_sequence size_t uint uint uint "draw_error option"

record Client =
  ram :: heap
  pktbuf :: Strechy_Buffer
  pxlbuf :: Strechy_Buffer
  waiting_chunk :: "idxview option"
  read_handler :: Buffered_Read_Handler
  known :: "size_t \<Rightarrow> bool"
  trace :: "event list"

text \<open>The pending side chunk as a handler resolves it (\<open>_draw\<close>):
  \<open>_waiting_chunk->slice(_pktbuf.base())\<close>.\<close>

definition resolve_chunk :: "Client \<Rightarrow> strview option" where
  "resolve_chunk c =
     (case waiting_chunk c of None \<Rightarrow> None | Some iv \<Rightarrow> slice (ram c) iv (base (pktbuf c)))"

text \<open>
  \<open>_on_ready(length, buf)\<close>. \<open>_handlers.dispatch\<close> is the parameter \<open>disp\<close>: it is
  given the client and the payload view and answers the flag \<open>dispatch\<close> returns. The
  call is recorded with the payload and the side chunk as resolved at that moment.
\<close>

definition on_ready ::
  "(Client \<Rightarrow> strview \<Rightarrow> bool) \<Rightarrow> Client \<Rightarrow> size_t \<Rightarrow> ptr \<Rightarrow> fault + Client" where
  "on_ready disp c0 n buf =
     (let c = c0\<lparr>pktbuf := extend_length (pktbuf c0) n\<rparr> in
      if n = 8 then
        (case load (ram c) buf 8 of
           None \<Rightarrow> Inl Bad_access
         | Some hdr \<Rightarrow>
             (case reserve_addnl (ram c) (pktbuf c) (ucast (Header_length hdr)) of
                Inl e \<Rightarrow> Inl e
              | Inr (h1, pb1, p) \<Rightarrow>
                  Inr (c\<lparr>ram := h1, pktbuf := pb1,
                         read_handler := respond_with (read_handler c) (ucast (Header_length hdr)) p\<rparr>)))
      else if buf < 8 then Inl Bad_access
      else
        (case load (ram c) (buf - 8) 8 of
           None \<Rightarrow> Inl Bad_access
         | Some hdr \<Rightarrow>
             if Header_field hdr chunk_idx \<noteq> CHR 0x00 then
               (case reserve_addnl (ram c) (pktbuf c) 8 of
                  Inl e \<Rightarrow> Inl e
                | Inr (h1, pb1, p) \<Rightarrow>
                    Inr (c\<lparr>ram := h1, pktbuf := pb1,
                           waiting_chunk :=
                             Some \<lparr>istart = of_nat buf - of_nat (base (pktbuf c)), ilength = n\<rparr>,
                           read_handler := respond_with (read_handler c) 8 p\<rparr>))
             else
               (case load (ram c) buf (unat n) of
                  None \<Rightarrow> Inl Bad_access
                | Some raw \<Rightarrow>
                    (let ok = disp c \<lparr>start = buf, bytes = raw\<rparr>;
                         c1 = c\<lparr>trace := trace c
                                 @ [Dispatch \<lparr>start = buf, bytes = raw\<rparr> (resolve_chunk c) ok]
                                 @ (if ok then [] else [Invalid_packet_warning n])\<rparr>
                     in case reserve_reset (ram c1) (pktbuf c1) 8 of
                          Inl e \<Rightarrow> Inl e
                        | Inr (h1, pb1, p) \<Rightarrow>
                            Inr (c1\<lparr>ram := h1, pktbuf := pb1, waiting_chunk := None,
                                    read_handler := respond_with (read_handler c1) 8 p\<rparr>)))))"

text \<open>
  \<open>Buffered_Read_Handler::read_available\<close> on the client's socket. \<open>pending\<close> are the
  bytes the socket holds; \<open>::read\<close> hands over as many of them as were asked for, into
  \<open>_buffer + _offset\<close>. With nothing to hand over it returns 0 or -1 and the error
  callback runs. The result is the client and the bytes still pending.
\<close>

definition read_available ::
  "(Client \<Rightarrow> strview \<Rightarrow> bool) \<Rightarrow> Client \<Rightarrow> string \<Rightarrow> fault + (Client \<times> string)" where
  "read_available disp c pending =
     (let rh = read_handler c;
          got = take (unat (remaining rh)) pending
      in case (if got = [] then Some (c\<lparr>trace := trace c @ [On_err]\<rparr>)
               else (case store (ram c) (rbuffer rh + unat (offset rh)) got of
                       None \<Rightarrow> None
                     | Some h1 \<Rightarrow>
                         Some (c\<lparr>ram := h1,
                                 read_handler := rh\<lparr>remaining := remaining rh - of_nat (length got),
                                                     offset := offset rh + of_nat (length got)\<rparr>\<rparr>))) of
           None \<Rightarrow> Inl Bad_access
         | Some c1 \<Rightarrow>
             if remaining (read_handler c1) = 0 then
               (case on_ready disp c1 (offset (read_handler c1)) (rbuffer (read_handler c1)) of
                  Inl e \<Rightarrow> Inl e
                | Inr c2 \<Rightarrow> Inr (c2, drop (length got) pending))
             else Inr (c1, drop (length got) pending))"

text \<open>\<open>k\<close> readiness callbacks in a row.\<close>

fun run ::
  "(Client \<Rightarrow> strview \<Rightarrow> bool) \<Rightarrow> nat \<Rightarrow> Client \<Rightarrow> string \<Rightarrow> fault + (Client \<times> string)" where
  "run disp 0 c pending = Inr (c, pending)"
| "run disp (Suc k) c pending =
     (case read_available disp c pending of
        Inl e \<Rightarrow> Inl e
      | Inr (c1, rest) \<Rightarrow> run disp k c1 rest)"

section \<open>The draw handler (client.cc, util.h)\<close>

text \<open>
  What \<open>_draw\<close> takes from outside this repository: the two decompressors (each gives
  its return value and the bytes it wrote to the destination; \<open>uncompress\<close> also the
  length it stored back), the pixel constructor \<open>Pixel_rgb888::rgba\<close> (the bytes of one
  pixel) and the addresses of the two string literals the format is compared with.
\<close>

record platform =
  LZ4_decompress_safe :: "string \<Rightarrow> uint \<Rightarrow> uint \<Rightarrow> uint \<times> string"
  uncompress :: "size_t \<Rightarrow> string \<Rightarrow> size_t \<Rightarrow> uint \<times> size_t \<times> string"
  rgba :: "char \<Rightarrow> char \<Rightarrow> char \<Rightarrow> string"
  lit_rgb32 :: ptr
  lit_rgb24 :: ptr

text \<open>
  The arguments of a draw message as the first lines of \<open>_draw\<close> read them from the
  list: \<open>m_w\<close>, \<open>m_h\<close>, \<open>m_seq_id\<close> and \<open>m_stride\<close> are the results of \<open>natural()\<close>,
  \<open>m_format\<close> and \<open>m_blob\<close> those of \<open>string()\<close>. \<open>m_config\<close> is the dict of
  argument 8 if there is one, with the two answers \<open>_draw\<close> asks of it: whether the
  entry \<open>lz4\<close> is the encoded \<open>true\<close>, and the integer of the entry \<open>zlib\<close> (0 when
  absent).
\<close>

datatype config = Config (lz4_is_true: bool) (zlib_integer: size_t)

record draw_msg =
  m_id :: size_t
  m_x :: uint
  m_y :: uint
  m_w :: size_t
  m_h :: size_t
  m_format :: strview
  m_blob :: strview
  m_seq_id :: size_t
  m_stride :: size_t
  m_config :: "config option"

definition INT_MAX :: uint where
  "INT_MAX = 0x7fffffff"

definition Z_OK :: uint where
  "Z_OK = 0"

definition extend_and_preserve ::
  "heap \<Rightarrow> Strechy_Buffer \<Rightarrow> size_t \<Rightarrow> size_t \<Rightarrow> fault + (heap \<times> Strechy_Buffer \<times> ptr)" where
  "extend_and_preserve h sb request preservation =
     (case reserve_addnl h (sb\<lparr>length' := preservation\<rparr>) request of
        Inl e \<Rightarrow> Inl e
      | Inr (h1, sb1, p) \<Rightarrow> Inr (h1, sb1\<lparr>length' := length' sb\<rparr>, p))"

text \<open>The \<open>do ... while (i-- > 0)\<close> loop of \<open>extend_24_to_32\<close>: with \<open>k\<close> pixels left
  it converts pixel \<open>k - 1\<close> in place and goes on downwards.\<close>

fun convert_24_to_32 :: "platform \<Rightarrow> ptr \<Rightarrow> nat \<Rightarrow> heap \<Rightarrow> heap option" where
  "convert_24_to_32 pf buf 0 h = Some h"
| "convert_24_to_32 pf buf (Suc i) h =
     (case load h (buf + i * 3) 3 of
        Some [r, g, b] \<Rightarrow>
          (case store h (buf + i * 4) (rgba pf r g b) of
             None \<Rightarrow> None
           | Some h1 \<Rightarrow> convert_24_to_32 pf buf i h1)
      | _ \<Rightarrow> None)"

text \<open>The null pointer is address 0.\<close>

definition extend_24_to_32 ::
  "platform \<Rightarrow> heap \<Rightarrow> Strechy_Buffer \<Rightarrow> size_t \<Rightarrow> fault + (heap \<times> Strechy_Buffer \<times> ptr)" where
  "extend_24_to_32 pf h rgb24 n =
     (if n = 0 then Inr (h, rgb24, 0)
      else
        (case extend_and_preserve h rgb24 n (n * 3) of
           Inl e \<Rightarrow> Inl e
         | Inr (h1, sb1, p) \<Rightarrow>
             (case convert_24_to_32 pf (base sb1) (unat n) h1 of
                None \<Rightarrow> Inl Bad_access
              | Some h2 \<Rightarrow> Inr (h2, sb1, base sb1))))"

text \<open>The lambdas \<open>update32\<close> and \<open>update24\<close>. \<open>Window::update_region\<close> is recorded with
  its arguments; its parameter \<open>stride\<close> is an \<open>unsigned\<close>, which the \<open>size_t\<close> of
  \<open>_draw\<close> is converted to at the call.\<close>

definition update32 ::
  "Client \<Rightarrow> draw_msg \<Rightarrow> uint \<Rightarrow> uint \<Rightarrow> size_t \<Rightarrow> ptr \<Rightarrow> Client" where
  "update32 c m w h stride decompressed =
     c\<lparr>trace := trace c
          @ [Update_region (m_id m) (m_x m) (m_y m) w h (ucast stride) decompressed]\<rparr>"

definition update24 ::
  "platform \<Rightarrow> Client \<Rightarrow> draw_msg \<Rightarrow> uint \<Rightarrow> uint \<Rightarrow> size_t \<Rightarrow> uint \<Rightarrow> ptr \<Rightarrow> fault + Client" where
  "update24 pf c m w h stride expected decompressed =
     (if w = 0 then Inl Division_by_zero
      else if stride div ucast w = 3 then
        (case extend_24_to_32 pf (ram c) (pxlbuf c) (ucast (expected div 3)) of
           Inl e \<Rightarrow> Inl e
         | Inr (h1, pb1, p) \<Rightarrow>
             Inr (update32 (c\<lparr>ram := h1, pxlbuf := pb1\<rparr>) m w h (ucast (w * 4)) p))
      else Inr (update32 c m w h stride decompressed))"

text \<open>
  The three parts of \<open>_draw\<close> each give the error message constructed so far (if any),
  the client, and the fault that ended the call (if any).

  Lines 318 to 320: the format decides the update. \<open>Id_space::apply\<close> throws for an id
  it does not know.
\<close>

definition draw_format ::
  "platform \<Rightarrow> Client \<Rightarrow> draw_msg \<Rightarrow> uint \<Rightarrow> uint \<Rightarrow> size_t \<Rightarrow> uint \<Rightarrow> ptr \<Rightarrow> draw_error option
     \<Rightarrow> draw_error option \<times> Client \<times> fault option" where
  "draw_format pf c m w h stride expected decompressed err =
     (if strview_eq (m_format m) \<lparr>start = lit_rgb32 pf, bytes = ''rgb32''\<rparr> then
        (if known c (m_id m)
         then (err, update32 c m w h stride decompressed, None)
         else (err, c, Some Other_exception))
      else if strview_eq (m_format m) \<lparr>start = lit_rgb24 pf, bytes = ''rgb24''\<rparr> then
        (if known c (m_id m)
         then (case update24 pf c m w h stride expected decompressed of
                 Inl f \<Rightarrow> (err, c, Some f)
               | Inr c1 \<Rightarrow> (err, c1, None))
         else (err, c, Some Other_exception))
      else (Some (Unexpected_format (bytes (m_format m))), c, None))"

text \<open>Lines 287 to 316: the payload is decoded as the config says. A decompressor's
  call is recorded with the pointers and lengths handed to it. \<open>len\<close> is a
  \<open>size_t\<close>; the parameter of \<open>LZ4_decompress_safe\<close> it initialises is an \<open>int\<close>.\<close>

definition draw_decode ::
  "platform \<Rightarrow> Client \<Rightarrow> draw_msg \<Rightarrow> uint \<Rightarrow> uint \<Rightarrow> strview \<Rightarrow> uint \<Rightarrow> ptr
     \<Rightarrow> draw_error option \<times> Client \<times> fault option" where
  "draw_decode pf c m w h data expected decompressed =
     (if m_config m = None \<or> lz4_is_true (the (m_config m)) then
        (if sint expected < 4 then (Some Lz4_smaller_than_header, c, None)
         else
           (case LZ4_decompress_safe pf (drop 4 (bytes data)) (ucast (sv_length data - 4)) expected of
              (ret, out) \<Rightarrow>
                (let c1 = c\<lparr>trace := trace c @ [Call_LZ4_decompress_safe (start data + 4) decompressed
                                                    (sv_length data - 4) expected]\<rparr>
                 in case store (ram c1) decompressed out of
                      None \<Rightarrow> (None, c1, Some Bad_access)
                    | Some h1 \<Rightarrow>
                        draw_format pf (c1\<lparr>ram := h1\<rparr>) m w h (m_stride m) expected decompressed
                          (if expected \<noteq> ret then Some (Lz4_malformed expected ret) else None))))
      else if zlib_integer (the (m_config m)) \<noteq> 0 then
        (case uncompress pf (scast expected) (bytes data) (sv_length data) of
           (ret, decomp_sz, out) \<Rightarrow>
             (let c1 = c\<lparr>trace := trace c @ [Call_uncompress decompressed (scast expected)
                                                 (start data) (sv_length data)]\<rparr>
              in case store (ram c1) decompressed out of
                   None \<Rightarrow> (None, c1, Some Bad_access)
                 | Some h1 \<Rightarrow>
                     draw_format pf (c1\<lparr>ram := h1\<rparr>) m w h (m_stride m) expected decompressed
                       (if ret \<noteq> Z_OK \<or> decomp_sz \<noteq> ucast expected
                        then Some (Zlib_failed expected decomp_sz) else None)))
      else if sv_length data \<noteq> ucast expected
        then (Some (Uncompressed_improper_length expected (sv_length data)), c, None)
        else draw_format pf c m w h (m_stride m) expected (start data) None)"

text \<open>Line 253, \<open>int expected = Genode::min(INT_MAX/h, stride) * h\<close>: unsigned 32-bit
  division and product, \<open>min\<close> at the type of its first argument.\<close>

definition expected_size :: "uint \<Rightarrow> size_t \<Rightarrow> fault + uint" where
  "expected_size h stride =
     (if h = 0 then Inl Division_by_zero
      else Inr ((if ucast (INT_MAX div h) < stride then INT_MAX div h else ucast stride) * h))"

text \<open>Lines 247 to 256: the data, the expected size, the pixel buffer. The view of a
  side chunk is made without reading it; a chunk whose range is not mapped is a bad access
  once its bytes are to be used.\<close>

definition draw_body ::
  "platform \<Rightarrow> Client \<Rightarrow> draw_msg \<Rightarrow> draw_error option \<times> Client \<times> fault option" where
  "draw_body pf c m =
     (let w = (ucast (min (m_w m) (ucast INT_MAX)) :: uint);
          h = (ucast (min (m_h m) (ucast INT_MAX)) :: uint)
      in if sv_length (m_blob m) = 0 \<and> waiting_chunk c = None then (Some No_rgb_data, c, None)
         else
           (case expected_size h (m_stride m) of
              Inl f \<Rightarrow> (None, c, Some f)
            | Inr expected \<Rightarrow>
                (case (if sv_length (m_blob m) \<noteq> 0 then Some (m_blob m) else resolve_chunk c) of
                   None \<Rightarrow> (None, c, Some Bad_access)
                 | Some data \<Rightarrow>
                     (case reserve_reset (ram c) (pxlbuf c) (scast expected) of
                        Inl f \<Rightarrow> (None, c, Some f)
                      | Inr (h1, pb1, decompressed) \<Rightarrow>
                          draw_decode pf (c\<lparr>ram := h1, pxlbuf := pb1\<rparr>) m w h data expected
                            decompressed))))"

text \<open>The guard \<open>damage_sequence_guard\<close> runs when \<open>_draw\<close> is left by a return or by
  an exception. The parameter \<open>seq_id\<close> of \<open>Protocol::damage_sequence\<close> is an
  \<open>unsigned\<close>, which the \<open>size_t\<close> of \<open>_draw\<close> is converted to at the call.\<close>

fun unwinds :: "fault \<Rightarrow> bool" where
  "unwinds (Parse e) = True"
| "unwinds Out_of_ram = True"
| "unwinds Other_exception = True"
| "unwinds f = False"

definition damage_sequence_guard :: "Client \<Rightarrow> draw_msg \<Rightarrow> draw_error option \<Rightarrow> Client" where
  "damage_sequence_guard c m err =
     c\<lparr>trace := trace c
          @ (case err of None \<Rightarrow> [] | Some e \<Rightarrow> [Buffer_refresh (m_id m), Log_error e])
          @ [Damage_sequence (m_id m) (ucast (m_seq_id m))
               (ucast (min (m_w m) (ucast INT_MAX))) (ucast (min (m_h m) (ucast INT_MAX))) err]\<rparr>"

definition draw :: "platform \<Rightarrow> Client \<Rightarrow> draw_msg \<Rightarrow> Client \<times> fault option" where
  "draw pf c m =
     (case draw_body pf c m of
        (err, c1, None) \<Rightarrow> (damage_sequence_guard c1 m err, None)
      | (err, c1, Some f) \<Rightarrow>
          if unwinds f then (damage_sequence_guard c1 m err, Some f) else (c1, Some f))"

section \<open>Invariants of the frame assembler\<close>

text \<open>Predicates on the state, used to state what a run of the assembler does to any
  stream, not only to the inputs below.\<close>

text \<open>The \<open>n\<close> bytes at \<open>p\<close> are all mapped.\<close>

definition mapped :: "heap \<Rightarrow> nat \<Rightarrow> nat \<Rightarrow> bool" where
  "mapped h p n = (\<forall>a. p \<le> a \<and> a < p + n \<longrightarrow> cells h a \<noteq> None)"

text \<open>Memory holds the bytes \<open>xs\<close> at \<open>p\<close>.\<close>

definition holds :: "heap \<Rightarrow> nat \<Rightarrow> string \<Rightarrow> bool" where
  "holds h p xs = (\<forall>i<length xs. cells h (p + i) = Some (xs ! i))"

text \<open>A buffer in good standing: its block is allocated in full below the break, it
  is not empty, and the bytes \<open>bs\<close> are the \<open>_length\<close> bytes committed to it.\<close>

definition buf_holds :: "heap \<Rightarrow> Strechy_Buffer \<Rightarrow> string \<Rightarrow> bool" where
  "buf_holds h sb bs =
     (0 < unat (capacity sb) \<and> unat (length' sb) = length bs \<and> length bs \<le> unat (capacity sb)
      \<and> mapped h (buffer sb) (unat (capacity sb))
      \<and> buffer sb + unat (capacity sb) \<le> brk h
      \<and> holds h (buffer sb) bs)"

text \<open>The assembler between two reads: the packet buffer holds \<open>bs\<close>, and the read
  handler waits for \<open>n\<close> bytes to put right behind them, where there is room.\<close>

definition awaiting :: "Client \<Rightarrow> string \<Rightarrow> nat \<Rightarrow> bool" where
  "awaiting c bs n =
     (buf_holds (ram c) (pktbuf c) bs
      \<and> read_handler c = \<lparr>offset = 0, remaining = of_nat n, rbuffer = buffer (pktbuf c) + length bs\<rparr>
      \<and> length bs + n \<le> unat (capacity (pktbuf c)))"

text \<open>The assembler when a read has completed: the bytes \<open>got\<close> lie behind the
  committed bytes \<open>bs\<close>, not yet committed.\<close>

definition filled :: "Client \<Rightarrow> string \<Rightarrow> string \<Rightarrow> bool" where
  "filled c bs got =
     (buf_holds (ram c) (pktbuf c) bs
      \<and> holds (ram c) (buffer (pktbuf c) + length bs) got
      \<and> length bs + length got \<le> unat (capacity (pktbuf c)))"

section \<open>Concrete inputs\<close>

text \<open>A dispatch table with the one entry \<open>ping\<close>. Its handler and its default handler
  answer with their names, so that a result tells which of them ran.\<close>

definition ping_table :: "string Proto_Map" where
  "ping_table =
     \<lparr>default' = (\<lambda>name ent. Inr (''default: '' @ bytes name)),
      str_tab = Mapping Null \<lparr>start = 5000, bytes = ''ping''\<rparr> (\<lambda>ent. Inr ''_ping_echo'') Null\<rparr>"

text \<open>A client after start-up: the packet buffer holds one header (8 bytes at address
  16), the pixel buffer has the default capacity 512 (at address 1000), window 1
  exists.\<close>

definition heap0 :: heap where
  "heap0 =
     \<lparr>cells = (\<lambda>a. if (16 \<le> a \<and> a < 24) \<or> (1000 \<le> a \<and> a < 1512)
                    then Some (CHR 0x00) else None),
      brk = 2000, quota = 4294967296, fresh = (\<lambda>a. CHR 0x00)\<rparr>"

definition client0 :: Client where
  "client0 =
     \<lparr>ram = heap0,
      pktbuf = \<lparr>capacity = 8, length' = 0, buffer = 16, consecutive_small_requests = 0\<rparr>,
      pxlbuf = \<lparr>capacity = 512, length' = 0, buffer = 1000, consecutive_small_requests = 0\<rparr>,
      waiting_chunk = None,
      read_handler = \<lparr>offset = 0, remaining = 8, rbuffer = 16\<rparr>,
      known = (\<lambda>i. i = 1),
      trace = []\<rparr>"

text \<open>Decompressors that reject their input: \<open>LZ4_decompress_safe\<close> returns -1,
  \<open>uncompress\<close> returns \<open>Z_DATA_ERROR\<close> (-3); neither writes a byte.\<close>

definition failing_codecs :: platform where
  "failing_codecs =
     \<lparr>LZ4_decompress_safe = (\<lambda>src n e. (- 1, [])),
      uncompress = (\<lambda>d src n. (- 3, 0, [])),
      rgba = (\<lambda>r g b. [b, g, r, CHR 0x00]),
      lit_rgb32 = 6000,
      lit_rgb24 = 6010\<rparr>"

text \<open>Draw messages for window 1: a 2 by 2 region of \<open>rgb32\<close> pixels with stride 8
  (expected size 16) and eight bytes of payload that are no compressed data; the same
  with the \<open>zlib\<close> hint; one of height 0 without any payload; one of height 0 with
  payload; one with a payload of three bytes.\<close>

definition draw_lz4 :: draw_msg where
  "draw_lz4 =
     \<lparr>m_id = 1, m_x = 0, m_y = 0, m_w = 2, m_h = 2,
      m_format = \<lparr>start = 130, bytes = ''rgb32''\<rparr>,
      m_blob = \<lparr>start = 140, bytes = ''garbage!''\<rparr>,
      m_seq_id = 7, m_stride = 8, m_config = None\<rparr>"

definition draw_zlib :: draw_msg where
  "draw_zlib = draw_lz4\<lparr>m_config := Some (Config False 1)\<rparr>"

definition draw_nodata :: draw_msg where
  "draw_nodata = draw_lz4\<lparr>m_h := 0, m_blob := \<lparr>start = 140, bytes = []\<rparr>\<rparr>"

definition draw_flat :: draw_msg where
  "draw_flat = draw_lz4\<lparr>m_h := 0\<rparr>"

definition draw_short :: draw_msg where
  "draw_short = draw_lz4\<lparr>m_blob := \<lparr>start = 140, bytes = ''abc''\<rparr>\<rparr>"


text \<open>Wire bytes: the header of a frame with the given chunk index and payload length
  (below 256), and a side chunk of eight bytes, two pixels.\<close>

definition header :: "char \<Rightarrow> char \<Rightarrow> string" where
  "header idx n = [CHR ''P'', CHR 0x00, CHR 0x00, idx, CHR 0x00, CHR 0x00, CHR 0x00, n]"

definition chunk8 :: string where
  "chunk8 = [CHR 0x00, CHR 0x00, CHR 0x00, CHR 0x00, CHR 0x00, CHR 0x00, CHR 0x00, CHR 0x18]"

text \<open>What is read off a run of the frame assembler: the dispatch calls made so far
  (each with its payload and the bytes of the side chunk as resolved for it), the pending
  side chunk, the number of bytes the read handler waits for, and the bytes not yet
  read.\<close>

fun dispatched :: "event list \<Rightarrow> (string \<times> string option) list" where
  "dispatched [] = []"
| "dispatched (Dispatch raw chunk ok # es) = (bytes raw, map_option bytes chunk) # dispatched es"
| "dispatched (e # es) = dispatched es"

definition observe ::
  "fault + (Client \<times> string)
     \<Rightarrow> fault + ((string \<times> string option) list \<times> idxview option \<times> size_t \<times> string)" where
  "observe r =
     map_sum id
       (\<lambda>(c, rest). (dispatched (trace c), waiting_chunk c, remaining (read_handler c), rest)) r"

text \<open>The digits of an encoded integer and the number they denote.\<close>

definition decimal_digits :: "string \<Rightarrow> bool" where
  "decimal_digits ds = (ds \<noteq> [] \<and> list_all (\<lambda>c. (48::nat) \<le> of_char c \<and> of_char c \<le> (57::nat)) ds)"

definition decimal_value :: "string \<Rightarrow> nat" where
  "decimal_value ds = foldl (\<lambda>v c. v * 10 + (of_char c - 48)) 0 ds"

text \<open>A list nested \<open>n\<close> deep with nothing else in it: \<open>n\<close> times \<open>l\<close>, then \<open>n\<close>
  times \<open>e\<close>.\<close>

definition nested :: "nat \<Rightarrow> string" where
  "nested n = replicate n (CHR ''l'') @ replicate n (CHR ''e'')"

text \<open>What the nesting results ask of \<open>ascii_to_unsigned\<close>: at the end of the bytes and
  at the letters \<open>l\<close> and \<open>e\<close> it finds no digit, stores nothing and consumes
  nothing.\<close>

definition reads_no_number :: "genode \<Rightarrow> bool" where
  "reads_no_number lib =
     (\<forall>s. ascii_to_unsigned lib [] = (0, 0)
          \<and> ascii_to_unsigned lib (CHR ''l'' # s) = (0, 0)
          \<and> ascii_to_unsigned lib (CHR ''e'' # s) = (0, 0))"


section \<open>Properties of Strechy\_Buffer\<close>

lemma resize_capacity_mono:
  "resize h sb n = Inr (h1, sb1, p) \<Longrightarrow> capacity sb \<le> capacity sb1"
  by (auto simp: resize_def split: if_splits option.splits)

lemma calculate_reservation_capacity:
  "calculate_reservation sb n = Inr (c, sb1) \<Longrightarrow> capacity sb1 = capacity sb"
  by (auto simp: calculate_reservation_def Let_def split: if_splits option.splits)

text \<open>No call of \<open>reserve_reset\<close> or \<open>reserve_addnl\<close> lowers the capacity:
  \<open>_resize\<close> returns at once for a new capacity that is not larger.\<close>

lemma reserve_reset_capacity_mono:
  "reserve_reset h sb n = Inr (h1, sb1, p) \<Longrightarrow> capacity sb \<le> capacity sb1"
  by (auto simp: reserve_reset_def reset_def split: sum.splits
           dest!: calculate_reservation_capacity resize_capacity_mono)

lemma reserve_addnl_capacity_mono:
  "reserve_addnl h sb n = Inr (h1, sb1, p) \<Longrightarrow> capacity sb \<le> capacity sb1"
  by (auto simp: reserve_addnl_def split: sum.splits
           dest!: calculate_reservation_capacity resize_capacity_mono)

text \<open>
  C4. Nine consecutive \<open>reserve_reset\<close> calls on a buffer of capacity 512, each asking
  for 8 bytes (less than a quarter of 512): every call increments the counter, which
  ends at 9; the ninth call, with the counter above 8, computes the reservation
  \<open>min(512/2, 1) = 1\<close>, and \<open>_resize\<close> leaves the buffer as it is. The capacity is
  still 512 after the nine calls: it was not halved.
\<close>

theorem nine_small_requests_keep_capacity:
  "reserve_resets h
     \<lparr>capacity = 512, length' = 0, buffer = p, consecutive_small_requests = 0\<rparr>
     [8, 8, 8, 8, 8, 8, 8, 8, 8]
   = Inr (h, \<lparr>capacity = 512, length' = 0, buffer = p, consecutive_small_requests = 9\<rparr>)
   \<and> calculate_reservation
       \<lparr>capacity = 512, length' = 0, buffer = p, consecutive_small_requests = 8\<rparr> 8
     = Inr (1, \<lparr>capacity = 512, length' = 0, buffer = p, consecutive_small_requests = 9\<rparr>)"
  by (simp add: reserve_reset_def calculate_reservation_def reset_def resize_def Let_def)

section \<open>Properties of the decoder\<close>

lemmas decoder_defs =
  object_len_def object_def decimal_def dec_unsigned_def dec_long_def cstr_def type'_def
  deref_def construct_def list'_def string'_def validate_type_def validate_len_def rem_def
  integer_def natural_def next'_def sv_length_def end'_def dict'_def dict_create_def

subsection \<open>The type check\<close>

text \<open>
  An object whose cursor stands on the byte \<open>c\<close> is accessed as an integer, a string, a
  list or a dict. If \<open>c\<close> is the tag of a kind (dict, string, list, integer, end of
  stream, end of collection) other than the one asked for, the accessor raises
  \<open>unexpected_type\<close>. If \<open>c\<close> is no such tag, every accessor raises
  \<open>invalid_buffer\<close>.
\<close>

lemma accessor_type_errors:
  assumes "deref mem (pos ob) = Some c"
  shows "(c \<in> set (map kind_char [DICT, STRING, LIST, INTEGER, END, REC_END]) \<longrightarrow>
           (c \<noteq> kind_char INTEGER \<longrightarrow> integer lib mem ob = Inl (Parse unexpected_type)) \<and>
           (c \<noteq> kind_char STRING \<longrightarrow> string' mem ob = Inl (Parse unexpected_type)) \<and>
           (c \<noteq> kind_char LIST \<longrightarrow> list' lib mem ob = Inl (Parse unexpected_type)) \<and>
           (c \<noteq> kind_char DICT \<longrightarrow> dict' lib mem ob = Inl (Parse unexpected_type))) \<and>
         (c \<notin> set (map kind_char [DICT, STRING, LIST, INTEGER, END, REC_END]) \<longrightarrow>
           integer lib mem ob = Inl (Parse invalid_buffer) \<and>
           string' mem ob = Inl (Parse invalid_buffer) \<and>
           list' lib mem ob = Inl (Parse invalid_buffer) \<and>
           dict' lib mem ob = Inl (Parse invalid_buffer))"
  using assms
  by (auto simp: integer_def string'_def list'_def dict'_def validate_type_def type'_def)

text \<open>On the integer \<open>i5e\<close> read as a string, a list and a dict, and on the byte \<open>x\<close>
  read as an integer and a string.\<close>

lemma accessor_type_errors_on_bytes:
  "string' \<lparr>start = 100, bytes = ''i5e''\<rparr> \<lparr>len = 0, pos = 100, last' = 102\<rparr>
       = Inl (Parse unexpected_type)
   \<and> list' decimal \<lparr>start = 100, bytes = ''i5e''\<rparr> \<lparr>len = 0, pos = 100, last' = 102\<rparr>
       = Inl (Parse unexpected_type)
   \<and> dict' decimal \<lparr>start = 100, bytes = ''i5e''\<rparr> \<lparr>len = 0, pos = 100, last' = 102\<rparr>
       = Inl (Parse unexpected_type)
   \<and> integer decimal \<lparr>start = 100, bytes = ''x''\<rparr> \<lparr>len = 0, pos = 100, last' = 100\<rparr>
       = Inl (Parse invalid_buffer)
   \<and> string' \<lparr>start = 100, bytes = ''x''\<rparr> \<lparr>len = 0, pos = 100, last' = 100\<rparr>
       = Inl (Parse invalid_buffer)"
  using accessor_type_errors
          [of "\<lparr>start = 100, bytes = ''i5e''\<rparr>" "\<lparr>len = 0, pos = 100, last' = 102\<rparr>"
              "CHR ''i''" decimal]
        accessor_type_errors
          [of "\<lparr>start = 100, bytes = ''x''\<rparr>" "\<lparr>len = 0, pos = 100, last' = 100\<rparr>"
              "CHR ''x''" decimal]
  by (simp add: deref_def)

subsection \<open>The length check of string()\<close>

text \<open>The length check on an object as its constructor made it: the length prefix at
  \<open>p\<close> reads as \<open>v\<close> (neither 0 nor the one value whose increment wraps to 0), the
  cursor stands on the string tag within the limit \<open>l\<close>, and the \<open>v\<close> bytes behind
  the tag would end past the limit. Then \<open>string()\<close> raises \<open>invalid_buffer\<close>.\<close>

lemma unat_ptr_diff:
  "p \<le> l \<Longrightarrow> l < 2 ^ 64 \<Longrightarrow> unat (of_nat l - of_nat p :: size_t) = l - p"
proof -
  assume a: "p \<le> l" "l < 2 ^ 64"
  then have "(of_nat l - of_nat p :: size_t) = of_nat (l - p)"
    by simp
  with a show ?thesis
    by (simp only: unat_of_nat) simp
qed

lemma constructed_string_past_limit:
  assumes prefix: "ascii_to_unsigned lib (cstr mem p) = (v, n)"
      and some: "v \<noteq> 0"
      and nowrap: "v + 1 \<noteq> 0"
      and ob: "ob = object lib mem p l"
      and tag: "deref mem (pos ob) = Some (CHR '':'')"
      and inside: "pos ob \<le> l" "l < 2 ^ 64"
      and past: "l < pos ob + 1 + unat v"
  shows "string' mem ob = Inl (Parse invalid_buffer)"
proof -
  have len: "len ob = v + 1"
    using prefix some by (simp add: ob object_def)
  have "unat (len ob) = Suc (unat v)"
    unfolding len using nowrap by (simp add: unatSuc add.commute)
  moreover have "unat (rem ob) = l - pos ob"
    using inside unat_ptr_diff [of "pos ob" l] by (simp add: rem_def ob object_def prefix)
  ultimately have "rem ob < len ob"
    using past by (simp add: word_less_nat_alt)
  with tag show ?thesis
    by (simp add: string'_def validate_type_def validate_len_def type'_def)
qed

text \<open>The one value left out: when the length prefix reads as \<open>2^64 - 1\<close>, \<open>++_len\<close>
  wraps to 0, the length check passes whatever remains, and \<open>string()\<close> returns the
  empty view.\<close>

lemma constructed_string_wraps:
  assumes prefix: "ascii_to_unsigned lib (cstr mem p) = (- 1, n)"
      and ob: "ob = object lib mem p l"
      and tag: "deref mem (pos ob) = Some (CHR '':'')"
  shows "string' mem ob = Inr \<lparr>start = pos ob + 1, bytes = []\<rparr>"
proof -
  have "len ob = 0"
    using prefix by (simp add: ob object_def)
  with tag show ?thesis
    by (simp add: string'_def validate_type_def validate_len_def type'_def)
qed

text \<open>
  C7. Two strings whose declared length runs past the limit, and which \<open>string()\<close>
  returns a view of instead of raising \<open>invalid_buffer\<close>. The buffer
  \<open>18446744073709551615:ab\<close> declares \<open>2^64 - 1\<close> bytes where two remain: the
  constructor's \<open>++_len\<close> wraps to 0 and \<open>string()\<close> returns the empty view. The buffer
  \<open>18446744073709551617:abc\<close> declares \<open>2^64 + 1\<close> bytes where three remain: the
  parsed length wraps to 1 and \<open>string()\<close> returns the view of the one byte \<open>a\<close>.
  Beside them, the declared length \<open>2^64 - 2\<close> on the same two bytes does raise
  \<open>invalid_buffer\<close>, and \<open>2:ab\<close> is the two bytes.
\<close>

theorem overlong_declared_length_is_not_rejected:
  "string' \<lparr>start = 100, bytes = ''18446744073709551615:ab''\<rparr>
      (object decimal \<lparr>start = 100, bytes = ''18446744073709551615:ab''\<rparr> 100 123)
     = Inr \<lparr>start = 121, bytes = []\<rparr>
   \<and> string' \<lparr>start = 100, bytes = ''18446744073709551617:abc''\<rparr>
      (object decimal \<lparr>start = 100, bytes = ''18446744073709551617:abc''\<rparr> 100 124)
     = Inr \<lparr>start = 121, bytes = ''a''\<rparr>
   \<and> string' \<lparr>start = 100, bytes = ''18446744073709551614:ab''\<rparr>
      (object decimal \<lparr>start = 100, bytes = ''18446744073709551614:ab''\<rparr> 100 123)
     = Inl (Parse invalid_buffer)
   \<and> string' \<lparr>start = 100, bytes = ''2:ab''\<rparr>
      (object decimal \<lparr>start = 100, bytes = ''2:ab''\<rparr> 100 104)
     = Inr \<lparr>start = 102, bytes = ''ab''\<rparr>"
  by (simp add: string'_def object_def decimal_def dec_unsigned_def validate_type_def
        validate_len_def type'_def deref_def rem_def cstr_def)

subsection \<open>natural()\<close>

text \<open>\<open>natural()\<close> raises \<open>not_natural_number\<close> when the \<open>long\<close> that \<open>integer()\<close>
  returned is negative; what it does return is the value of \<open>integer()\<close>, and that value
  is not negative.\<close>

lemma natural_raises_on_negative_long:
  "integer lib mem ob = Inr (num, ob1) \<Longrightarrow> sint num < 0 \<Longrightarrow>
   natural lib mem ob = Inl (Parse not_natural_number)"
  by (simp add: natural_def)

lemma natural_returns_integer:
  "natural lib mem ob = Inr (v, ob1) \<Longrightarrow> integer lib mem ob = Inr (v, ob1) \<and> 0 \<le> sint v"
  by (auto simp: natural_def split: sum.splits if_splits)

text \<open>The digits of an encoded integer, read by \<open>ascii_to\<close>: the value is the number they
  denote, cut to 64 bits.\<close>

lemma dec_digits_reads:
  "list_all (\<lambda>c. (48::nat) \<le> of_char c \<and> of_char c \<le> (57::nat)) ds \<Longrightarrow>
   dec_digits (ds @ CHR ''e'' # post) (of_nat a) i
     = (of_nat (foldl (\<lambda>v c. v * 10 + (of_char c - 48)) a ds), i + of_nat (length ds))"
proof (induction ds arbitrary: a i)
  case Nil
  show ?case by simp
next
  case (Cons c ds)
  from Cons.prems have c: "(48::nat) \<le> of_char c \<and> of_char c \<le> (57::nat)"
    and ds: "list_all (\<lambda>c. (48::nat) \<le> of_char c \<and> of_char c \<le> (57::nat)) ds"
    by simp_all
  have "dec_digits ((c # ds) @ CHR ''e'' # post) (of_nat a) i
          = dec_digits (ds @ CHR ''e'' # post) (of_nat (a * 10 + (of_char c - 48))) (i + 1)"
    using c by (simp add: add_diff_eq)
  also have "\<dots> = (of_nat (foldl (\<lambda>v c. v * 10 + (of_char c - 48)) (a * 10 + (of_char c - 48)) ds),
                   i + 1 + of_nat (length ds))"
    by (rule Cons.IH [OF ds])
  finally show ?case by (simp add: add.assoc add.commute)
qed

lemma sint_negated:
  "0 < n \<Longrightarrow> n \<le> 2 ^ 63 \<Longrightarrow> sint (- (of_nat n :: size_t)) = - int n"
proof -
  assume a: "0 < n" "n \<le> 2 ^ 63"
  have "(- (of_nat n :: size_t)) = word_of_int (- int n)"
    by simp
  then have "sint (- (of_nat n :: size_t)) = signed_take_bit 63 (- int n)"
    by (simp only: sint_sbintrunc') simp
  also have "\<dots> = - int n"
    using a by (intro signed_take_bit_int_eq_self) simp_all
  finally show ?thesis .
qed

lemma sint_negated_wraps:
  "2 ^ 63 < n \<Longrightarrow> n \<le> 2 ^ 64 \<Longrightarrow>
   - (of_nat n :: size_t) = of_nat (2 ^ 64 - n) \<and> sint (of_nat (2 ^ 64 - n) :: size_t) = int (2 ^ 64 - n)"
proof -
  assume a: "2 ^ 63 < n" "n \<le> 2 ^ 64"
  have "(of_nat (2 ^ 64 - n) :: size_t) = of_nat (2 ^ 64) - of_nat n"
    using a by (simp only: of_nat_diff)
  also have "\<dots> = - of_nat n"
    by simp
  finally have eq: "- (of_nat n :: size_t) = of_nat (2 ^ 64 - n)"
    by simp
  have "(of_nat (2 ^ 64 - n) :: size_t) = word_of_int (int (2 ^ 64 - n))"
    by simp
  then have "sint (of_nat (2 ^ 64 - n) :: size_t) = signed_take_bit 63 (int (2 ^ 64 - n))"
    by (simp only: sint_sbintrunc') simp
  also have "\<dots> = int (2 ^ 64 - n)"
    using a by (intro signed_take_bit_int_eq_self) simp_all
  finally show ?thesis
    using eq by simp
qed

text \<open>An encoded negative integer \<open>i-\<close>, digits, \<open>e\<close>, anywhere in a buffer. When the
  number is at most \<open>2^63\<close>, \<open>natural()\<close> raises \<open>not_natural_number\<close>. When it is
  larger, up to \<open>2^64\<close>, the negation leaves the range of \<open>long\<close> and \<open>natural()\<close>
  returns \<open>2^64\<close> minus the number.\<close>

lemma natural_of_encoded_negative:
  assumes digits: "decimal_digits ds" and short: "length ds < 2 ^ 64"
      and neg: "0 < decimal_value ds" and fits: "decimal_value ds \<le> 2 ^ 63"
  shows "natural decimal \<lparr>start = a, bytes = pre @ ''i-'' @ ds @ ''e'' @ post\<rparr>
           \<lparr>len = n, pos = a + length pre, last' = l\<rparr>
         = Inl (Parse not_natural_number)"
proof -
  let ?mem = "\<lparr>start = a, bytes = pre @ ''i-'' @ ds @ ''e'' @ post\<rparr>"
  let ?ob = "\<lparr>len = n, pos = a + length pre, last' = l\<rparr>"
  have ty: "deref ?mem (pos ?ob) = Some (CHR ''i'')"
    by (simp add: deref_def nth_append)
  have cs: "cstr ?mem (pos ?ob + 1) = CHR ''-'' # ds @ CHR ''e'' # post"
    by (simp add: cstr_def)
  from digits have all: "list_all (\<lambda>c. (48::nat) \<le> of_char c \<and> of_char c \<le> (57::nat)) ds"
    and ne: "ds \<noteq> []"
    by (simp_all add: decimal_digits_def)
  have rd: "dec_digits (ds @ CHR ''e'' # post) 0 0
              = (of_nat (decimal_value ds), of_nat (length ds))"
    using dec_digits_reads [OF all, of post 0 0] by (simp add: decimal_value_def)
  have "unat (of_nat (length ds) :: size_t) = length ds"
    using short by (simp add: unat_of_nat)
  with ne have j: "(of_nat (length ds) :: size_t) \<noteq> 0"
    by auto
  have "dec_long (CHR ''-'' # ds @ CHR ''e'' # post)
          = (- of_nat (decimal_value ds), 1 + of_nat (length ds))"
    using rd j by (simp add: dec_long_def)
  then have "integer decimal ?mem ?ob
               = Inr (- of_nat (decimal_value ds), ?ob\<lparr>len := 1 + of_nat (length ds) + 2\<rparr>)"
    using ty cs by (simp add: integer_def validate_type_def type'_def decimal_def)
  moreover have "sint (- (of_nat (decimal_value ds) :: size_t)) < 0"
    using sint_negated [OF neg fits] neg by simp
  ultimately show ?thesis
    by (simp add: natural_def)
qed

lemma natural_of_encoded_negative_wraps:
  assumes digits: "decimal_digits ds" and short: "length ds < 2 ^ 64"
      and below: "2 ^ 63 < decimal_value ds" and fits: "decimal_value ds \<le> 2 ^ 64"
  shows "natural decimal \<lparr>start = a, bytes = pre @ ''i-'' @ ds @ ''e'' @ post\<rparr>
           \<lparr>len = n, pos = a + length pre, last' = l\<rparr>
         = Inr (of_nat (2 ^ 64 - decimal_value ds),
                \<lparr>len = of_nat (length ds) + 3, pos = a + length pre, last' = l\<rparr>)"
proof -
  let ?mem = "\<lparr>start = a, bytes = pre @ ''i-'' @ ds @ ''e'' @ post\<rparr>"
  let ?ob = "\<lparr>len = n, pos = a + length pre, last' = l\<rparr>"
  have ty: "deref ?mem (pos ?ob) = Some (CHR ''i'')"
    by (simp add: deref_def nth_append)
  have cs: "cstr ?mem (pos ?ob + 1) = CHR ''-'' # ds @ CHR ''e'' # post"
    by (simp add: cstr_def)
  from digits have all: "list_all (\<lambda>c. (48::nat) \<le> of_char c \<and> of_char c \<le> (57::nat)) ds"
    and ne: "ds \<noteq> []"
    by (simp_all add: decimal_digits_def)
  have rd: "dec_digits (ds @ CHR ''e'' # post) 0 0
              = (of_nat (decimal_value ds), of_nat (length ds))"
    using dec_digits_reads [OF all, of post 0 0] by (simp add: decimal_value_def)
  have "unat (of_nat (length ds) :: size_t) = length ds"
    using short by (simp add: unat_of_nat)
  with ne have j: "(of_nat (length ds) :: size_t) \<noteq> 0"
    by auto
  from sint_negated_wraps [OF below fits]
  have w: "- (of_nat (decimal_value ds) :: size_t) = of_nat (2 ^ 64 - decimal_value ds)"
    and nn: "sint (of_nat (2 ^ 64 - decimal_value ds) :: size_t) = int (2 ^ 64 - decimal_value ds)"
    by simp_all
  have "dec_long (CHR ''-'' # ds @ CHR ''e'' # post)
          = (of_nat (2 ^ 64 - decimal_value ds), 1 + of_nat (length ds))"
    using rd j w by (simp add: dec_long_def)
  then have "integer decimal ?mem ?ob
               = Inr (of_nat (2 ^ 64 - decimal_value ds), ?ob\<lparr>len := 1 + of_nat (length ds) + 2\<rparr>)"
    using ty cs by (simp add: integer_def validate_type_def type'_def decimal_def)
  moreover have "\<not> sint (of_nat (2 ^ 64 - decimal_value ds) :: size_t) < 0"
    unfolding nn by simp
  ultimately show ?thesis
    by (simp add: natural_def)
qed

text \<open>
  C8. Two encoded negative integers for which \<open>natural()\<close> returns a value instead of
  raising \<open>not_natural_number\<close>: \<open>i-9223372036854775809e\<close> (minus \<open>2^63 + 1\<close>) gives
  \<open>2^63 - 1\<close>, and \<open>i-18446744073709551616e\<close> (minus \<open>2^64\<close>) gives 0. The
  neighbour \<open>i-9223372036854775808e\<close> (minus \<open>2^63\<close>) raises.
\<close>

theorem natural_of_large_negative_returns_wrapped_value:
  "natural decimal \<lparr>start = 100, bytes = ''i-9223372036854775809e''\<rparr>
       \<lparr>len = 0, pos = 100, last' = 122\<rparr>
     = Inr (9223372036854775807, \<lparr>len = 22, pos = 100, last' = 122\<rparr>)
   \<and> natural decimal \<lparr>start = 100, bytes = ''i-18446744073709551616e''\<rparr>
       \<lparr>len = 0, pos = 100, last' = 123\<rparr>
     = Inr (0, \<lparr>len = 23, pos = 100, last' = 123\<rparr>)
   \<and> natural decimal \<lparr>start = 100, bytes = ''i-9223372036854775808e''\<rparr>
       \<lparr>len = 0, pos = 100, last' = 122\<rparr>
     = Inl (Parse not_natural_number)"
  by (simp add: natural_def integer_def validate_type_def type'_def deref_def decimal_def
        dec_long_def cstr_def)

section \<open>Properties of the dispatcher\<close>

lemma memcmp_Cons:
  "0 < n \<Longrightarrow> memcmp (x # xs) (y # ys) n =
     (if x \<noteq> y then int (of_char x) - int (of_char y) else memcmp xs ys (n - 1))"
  by (cases n) simp_all

text \<open>
  C6. The table holds the one name \<open>ping\<close>; the message is the list
  \<open>l9:ping_echoi1ee\<close>, whose name \<open>ping_echo\<close> is nine bytes long. \<open>strview::cmp\<close>
  compares the first four bytes only, \<open>search\<close> takes the names for equal, and the
  handler registered for \<open>ping\<close> runs; the default handler does not.
\<close>

theorem dispatch_runs_handler_for_longer_name:
  "dispatch 1 decimal ping_table \<lparr>start = 100, bytes = ''l9:ping_echoi1ee''\<rparr>
     = Some (Inr (True, Some ''_ping_echo''))"
  by (simp add: dispatch_def decoder_defs ping_table_def dispatch_entry_def strview_ne_def
                cmp_def Let_def memcmp_Cons)

section \<open>Properties of the draw handler\<close>

lemmas draw_defs =
  draw_def draw_body_def draw_decode_def draw_format_def expected_size_def INT_MAX_def Z_OK_def
  update32_def update24_def damage_sequence_guard_def resolve_chunk_def reserve_reset_def
  calculate_reservation_def reset_def resize_def store_def load_def strview_eq_def
  strview_ne_def cmp_def sv_length_def Let_def

lemmas draw_inputs =
  failing_codecs_def client0_def heap0_def draw_lz4_def draw_zlib_def draw_nodata_def
  draw_flat_def draw_short_def

text \<open>
  C1. Window 1 exists and the message asks for a 2 by 2 \<open>rgb32\<close> update whose payload
  the decompressor rejects. With the LZ4 default, and again with the \<open>zlib\<close> hint, the
  handler constructs the error and goes on to the format dispatch: \<open>update_region\<close>
  runs on window 1 with the pixel buffer the failed decompression left behind, and only
  then the guard sends the refresh request, the diagnostic and the acknowledgement.
\<close>

theorem failed_decode_still_updates_window:
  "trace (fst (draw failing_codecs client0 draw_lz4)) =
     [Call_LZ4_decompress_safe 144 1000 4 16,
      Update_region 1 0 0 2 2 8 1000,
      Buffer_refresh 1,
      Log_error (Lz4_malformed 16 (- 1)),
      Damage_sequence 1 7 2 2 (Some (Lz4_malformed 16 (- 1)))]
   \<and> snd (draw failing_codecs client0 draw_lz4) = None
   \<and> trace (fst (draw failing_codecs client0 draw_zlib)) =
     [Call_uncompress 1000 16 140 8,
      Update_region 1 0 0 2 2 8 1000,
      Buffer_refresh 1,
      Log_error (Zlib_failed 16 0),
      Damage_sequence 1 7 2 2 (Some (Zlib_failed 16 0))]
   \<and> snd (draw failing_codecs client0 draw_zlib) = None"
  by (simp add: draw_defs draw_inputs memcmp_Cons)

text \<open>Line 253 faults exactly for the height 0.\<close>

lemma expected_size_fault_iff:
  "(expected_size h stride = Inl Division_by_zero) = (h = 0)"
  by (simp add: expected_size_def)

text \<open>The guard of line 247, for any message and any height: with an empty blob and no
  pending side chunk the handler returns there, and what runs is the guard
  \<open>damage_sequence_guard\<close> with the message of that error.\<close>

lemma draw_without_data_returns:
  "sv_length (m_blob m) = 0 \<Longrightarrow> waiting_chunk c = None \<Longrightarrow>
   draw pf c m = (damage_sequence_guard c m (Some No_rgb_data), None)"
  by (simp add: draw_def draw_body_def Let_def)

text \<open>
  C9, as stated, fails for a draw message of height 0 that brings no pixel data
  (an empty blob and no pending side chunk): the guard of line 247 returns before
  line 253, nothing is divided, and the handler ends with the refresh request, the
  diagnostic and the acknowledgement.
\<close>

theorem height_zero_without_data_returns:
  "m_h draw_nodata = 0
   \<and> draw failing_codecs client0 draw_nodata =
       (client0\<lparr>trace := [Buffer_refresh 1, Log_error No_rgb_data,
                           Damage_sequence 1 7 2 0 (Some No_rgb_data)]\<rparr>,
        None)"
  by (simp add: draw_defs draw_inputs)

text \<open>
  C9, amended. The expected size, \<open>min(INT_MAX/h, stride) * h\<close>, divides by the height:
  it is a division by zero exactly when the height is 0. A draw message of height 0
  that brings pixel data (a blob that is not empty, or a pending side chunk) reaches
  that division: the handler ends there, with the client as it was before the call,
  so no codec was selected, no size was checked, and not even the guard has run.
\<close>

theorem height_zero_with_data_divides_by_zero:
  assumes "m_h m = 0"
      and "sv_length (m_blob m) \<noteq> 0 \<or> waiting_chunk c \<noteq> None"
  shows "(expected_size h stride = Inl Division_by_zero) = (h = 0)
         \<and> draw pf c m = (c, Some Division_by_zero)"
  using assms by (auto simp: draw_def draw_body_def expected_size_def Let_def)

theorem height_zero_with_data_divides_by_zero_witness:
  "m_h draw_flat = 0
   \<and> sv_length (m_blob draw_flat) \<noteq> 0
   \<and> (expected_size 0 8 = Inl Division_by_zero) = ((0 :: uint) = 0)
   \<and> draw failing_codecs client0 draw_flat = (client0, Some Division_by_zero)"
  using height_zero_with_data_divides_by_zero [of draw_flat client0 0 8 failing_codecs]
  by (simp add: draw_inputs sv_length_def)

lemma short_length_wraps:
  "length xs < 4 \<Longrightarrow> unat (of_nat (length xs) - 4 :: size_t) = 2 ^ 64 - 4 + length xs"
proof -
  assume "length xs < 4"
  then consider "length xs = 0" | "length xs = 1" | "length xs = 2" | "length xs = 3"
    by linarith
  then show ?thesis
    by cases (simp_all add: unsigned_minus_1_eq_mask mask_eq_exp_minus_1)
qed

lemma ucast_minus_one: "(ucast (- 1 :: size_t) :: uint) = - 1"
  by (rule bit_word_eqI) (auto simp: bit_simps)

lemma short_length_as_int:
  "length xs < 4 \<Longrightarrow> sint (ucast (of_nat (length xs) - 4 :: size_t) :: uint) = int (length xs) - 4"
proof -
  assume "length xs < 4"
  then consider "length xs = 0" | "length xs = 1" | "length xs = 2" | "length xs = 3"
    by linarith
  then show ?thesis
    by cases (simp_all add: ucast_minus_one)
qed

lemma update24_keeps_trace:
  "update24 pf c m w h stride expected d = Inr c1 \<Longrightarrow> set (trace c) \<subseteq> set (trace c1)"
  by (auto simp: update24_def update32_def split: if_splits sum.splits)

lemma draw_format_keeps_trace:
  "e \<in> set (trace c) \<Longrightarrow>
   e \<in> set (trace (fst (snd (draw_format pf c m w h stride expected d err))))"
  by (auto simp: draw_format_def update32_def split: sum.splits dest: update24_keeps_trace)

text \<open>The LZ4 branch of the decode step on an input of fewer than four bytes, once the
  check of the expected size has passed.\<close>

lemma draw_decode_short_lz4:
  assumes "m_config m = None \<or> lz4_is_true (the (m_config m))"
      and "\<not> sint expected < 4"
  shows "Call_LZ4_decompress_safe (start data + 4) decompressed (sv_length data - 4) expected
           \<in> set (trace (fst (snd (draw_decode pf c m w h data expected decompressed))))"
proof -
  obtain ret out where
    "LZ4_decompress_safe pf (drop 4 (bytes data)) (ucast (sv_length data - 4)) expected
       = (ret, out)"
    by (cases "LZ4_decompress_safe pf (drop 4 (bytes data)) (ucast (sv_length data - 4)) expected")
  with assms show ?thesis
    by (auto simp: draw_decode_def Let_def split: option.splits intro!: draw_format_keeps_trace)
qed

lemma draw_keeps_body_trace:
  "e \<in> set (trace (fst (snd (draw_body pf c m)))) \<Longrightarrow> e \<in> set (trace (fst (draw pf c m)))"
  by (auto simp: draw_def damage_sequence_guard_def split: prod.splits option.splits)

text \<open>
  C10. The message selects LZ4 (no config dict, or the entry \<open>lz4\<close> is true), its raw
  input \<open>data\<close> (the blob, or else the pending side chunk) is shorter than 4 bytes,
  the expected size is at least 4 so that the only check of the branch passes, and the
  pixel buffer could be reserved. Then \<open>len -= header_len\<close> wraps: the length is
  \<open>2^64 - 4 + length\<close>, and \<open>LZ4_decompress_safe\<close> is called with it; the \<open>int\<close>
  parameter it initialises is \<open>length - 4\<close>, a negative number.
\<close>

theorem lz4_short_input_wraps_length:
  assumes hint: "m_config m = None \<or> lz4_is_true (the (m_config m))"
      and data: "(if sv_length (m_blob m) \<noteq> 0 then Some (m_blob m) else resolve_chunk c) = Some data"
      and short: "length (bytes data) < 4"
      and size: "expected_size (ucast (min (m_h m) (ucast INT_MAX))) (m_stride m) = Inr expected"
      and check: "4 \<le> sint expected"
      and reserved: "reserve_reset (ram c) (pxlbuf c) (scast expected) = Inr (h1, pb1, decompressed)"
  shows "unat (sv_length data - 4) = 2 ^ 64 - 4 + length (bytes data)
         \<and> sint (ucast (sv_length data - 4) :: uint) = int (length (bytes data)) - 4
         \<and> Call_LZ4_decompress_safe (start data + 4) decompressed (sv_length data - 4) expected
             \<in> set (trace (fst (draw pf c m)))"
proof -
  have present: "\<not> (sv_length (m_blob m) = 0 \<and> waiting_chunk c = None)"
    using data by (auto simp: resolve_chunk_def split: if_splits option.splits)
  have body: "draw_body pf c m =
      draw_decode pf (c\<lparr>ram := h1, pxlbuf := pb1\<rparr>) m
        (ucast (min (m_w m) (ucast INT_MAX))) (ucast (min (m_h m) (ucast INT_MAX)))
        data expected decompressed"
    using present data size reserved by (auto simp: draw_body_def Let_def)
  have "Call_LZ4_decompress_safe (start data + 4) decompressed (sv_length data - 4) expected
          \<in> set (trace (fst (snd (draw_body pf c m))))"
    unfolding body using hint check by (intro draw_decode_short_lz4) simp_all
  then show ?thesis
    using short by (simp add: draw_keeps_body_trace sv_length_def short_length_wraps short_length_as_int)
qed

theorem lz4_short_input_wraps_length_witness:
  "m_config draw_short = None
   \<and> (if sv_length (m_blob draw_short) \<noteq> 0 then Some (m_blob draw_short) else resolve_chunk client0)
       = Some \<lparr>start = 140, bytes = ''abc''\<rparr>
   \<and> length ''abc'' < 4
   \<and> expected_size (ucast (min (m_h draw_short) (ucast INT_MAX))) (m_stride draw_short) = Inr 16
   \<and> 4 \<le> sint (16 :: uint)
   \<and> reserve_reset (ram client0) (pxlbuf client0) (scast (16 :: uint))
       = Inr (heap0, \<lparr>capacity = 512, length' = 0, buffer = 1000, consecutive_small_requests = 1\<rparr>, 1000)
   \<and> unat (sv_length \<lparr>start = 140, bytes = ''abc''\<rparr> - 4) = 2 ^ 64 - 1
   \<and> sint (ucast (sv_length \<lparr>start = 140, bytes = ''abc''\<rparr> - 4) :: uint) = - 1
   \<and> Call_LZ4_decompress_safe 144 1000 (- 1) 16 \<in> set (trace (fst (draw failing_codecs client0 draw_short)))"
  using lz4_short_input_wraps_length
          [of draw_short client0 "\<lparr>start = 140, bytes = ''abc''\<rparr>" 16 heap0
              "\<lparr>capacity = 512, length' = 0, buffer = 1000, consecutive_small_requests = 1\<rparr>"
              1000 failing_codecs]
  by (simp add: draw_inputs sv_length_def expected_size_def INT_MAX_def reserve_reset_def
                calculate_reservation_def reset_def resize_def Let_def)

section \<open>Recursion depth of next() and skipall()\<close>

lemma nested_Suc: "nested (Suc n) = CHR ''l'' # nested n @ [CHR ''e'']"
  by (simp add: nested_def replicate_append_same)

lemma length_nested: "length (nested n) = 2 * n"
  by (simp add: nested_def)

lemma object_at_letter:
  assumes "reads_no_number lib" and "c = CHR ''l'' \<or> c = CHR ''e''"
  shows "object lib \<lparr>start = a, bytes = pre @ c # post\<rparr> (a + length pre) l
           = \<lparr>len = 0, pos = a + length pre, last' = l\<rparr>"
  using assms by (auto simp: object_def cstr_def reads_no_number_def)

lemma type_at:
  "type' \<lparr>start = a, bytes = pre @ c # post\<rparr> \<lparr>len = n, pos = a + length pre, last' = l\<rparr> = Inr c"
  by (simp add: type'_def deref_def)

lemma ptr_diff: "d < 2 ^ 64 \<Longrightarrow> unat (of_nat (p + d) - of_nat p :: size_t) = d"
  by (simp add: unat_of_nat)

lemma unat_two_plus: "x + 2 < 2 ^ 64 \<Longrightarrow> unat (2 + word_of_nat x :: size_t) = 2 + x"
proof -
  assume "x + 2 < 2 ^ 64"
  moreover have "(2 + word_of_nat x :: size_t) = word_of_nat (2 + x)"
    by simp
  ultimately show ?thesis
    by (simp only: unat_of_nat) simp
qed

lemma skipall_from_at_end:
  "skipall_from (Suc k) t lib \<lparr>start = a, bytes = pre @ CHR ''e'' # post\<rparr>
     \<lparr>len = n, pos = a + length pre, last' = l\<rparr> = Some (Inr (a + length pre + 1), 0)"
  by (simp add: type_at)

lemma next_d_nested:
  assumes lib: "reads_no_number lib"
  shows "2 * Suc m < 2 ^ 64 \<Longrightarrow> 2 * Suc m \<le> k \<Longrightarrow>
         next_d k List_T lib \<lparr>start = a, bytes = pre @ nested (Suc m) @ post\<rparr>
             \<lparr>len = 0, pos = a + length pre, last' = l\<rparr>
           = Some (Inr (object lib \<lparr>start = a, bytes = pre @ nested (Suc m) @ post\<rparr>
                          (a + length pre + 2 * Suc m) l),
                   2 * Suc m)"
proof (induction m arbitrary: pre post k)
  case 0
  let ?xs = "pre @ nested (Suc 0) @ post"
  let ?mem = "\<lparr>start = a, bytes = ?xs\<rparr>"
  define p0 where "p0 = a + length pre"
  define p1 where "p1 = a + length (pre @ [CHR ''l''])"
  have b1: "?xs = pre @ CHR ''l'' # (CHR ''e'' # post)"
    by (simp add: nested_def)
  have b2: "?xs = (pre @ [CHR ''l'']) @ CHR ''e'' # post"
    by (simp add: nested_def)
  from "0.prems"(2) obtain k1 where k: "k = Suc (Suc k1)"
    by (metis Suc_le_D mult_2 add_Suc_right add_Suc plus_nat.add_0 Suc_le_mono)
  have s01: "Suc p0 = p1"
    by (simp add: p0_def p1_def)
  have ty: "type' ?mem \<lparr>len = 0, pos = p0, last' = l\<rparr> = Inr (CHR ''l'')"
    unfolding b1 p0_def by (rule type_at)
  have ob1: "object lib ?mem p1 l = \<lparr>len = 0, pos = p1, last' = l\<rparr>"
    unfolding b2 p1_def by (rule object_at_letter [OF lib]) simp
  have sk: "skipall_from (Suc k1) List_T lib ?mem \<lparr>len = 0, pos = p1, last' = l\<rparr>
              = Some (Inr (p1 + 1), 0)"
    unfolding b2 p1_def by (rule skipall_from_at_end)
  have pd: "p0 + unat (word_of_nat (p1 + 1) - word_of_nat p0 :: size_t) = a + length pre + 2 * Suc 0"
    by (simp add: p0_def p1_def)
  have "next_d (Suc (Suc k1)) List_T lib ?mem \<lparr>len = 0, pos = p0, last' = l\<rparr>
          = Some (Inr (object lib ?mem (p0 + unat (word_of_nat (p1 + 1) - word_of_nat p0 :: size_t)) l), 2)"
    by (simp add: ty construct_def s01 ob1 sk del: skipall_from.simps of_nat_Suc of_nat_add)
  then show ?case
    unfolding pd k by (simp add: p0_def)
next
  case (Suc m)
  let ?xs = "pre @ nested (Suc (Suc m)) @ post"
  let ?mem = "\<lparr>start = a, bytes = ?xs\<rparr>"
  let ?pre1 = "pre @ [CHR ''l'']"
  let ?pre2 = "pre @ CHR ''l'' # nested (Suc m)"
  define p0 where "p0 = a + length pre"
  define p1 where "p1 = a + length ?pre1"
  define p2 where "p2 = a + length ?pre2"
  define d where "d = 2 * Suc m"
  have b1: "?xs = pre @ CHR ''l'' # (nested (Suc m) @ CHR ''e'' # post)"
    by (simp add: nested_Suc)
  have b2: "?xs = ?pre1 @ nested (Suc m) @ (CHR ''e'' # post)"
    by (simp add: nested_Suc)
  have b3: "?xs = ?pre1 @ CHR ''l'' # (nested m @ CHR ''e'' # CHR ''e'' # post)"
    by (simp add: nested_Suc)
  have b4: "?xs = ?pre2 @ CHR ''e'' # post"
    by (simp add: nested_Suc)
  from "Suc.prems"(2) obtain k2 where k: "k = Suc (Suc k2)" and k2: "2 * Suc m \<le> k2"
    by (metis Suc_le_D mult_2 add_Suc_right add_Suc Suc_le_mono mult_Suc_right)
  from k2 obtain k3 where k3: "k2 = Suc k3"
    by (metis Suc_le_D mult_2 add_Suc)
  have small: "2 * Suc m < 2 ^ 64"
    using "Suc.prems"(1) by simp
  have s01: "Suc p0 = p1"
    by (simp add: p0_def p1_def)
  have s12: "p1 + d = p2"
    by (simp add: p1_def p2_def d_def length_nested)
  have ty: "type' ?mem \<lparr>len = 0, pos = p0, last' = l\<rparr> = Inr (CHR ''l'')"
    unfolding b1 p0_def by (rule type_at)
  have ob1: "object lib ?mem p1 l = \<lparr>len = 0, pos = p1, last' = l\<rparr>"
    unfolding b3 p1_def by (rule object_at_letter [OF lib]) simp
  have ty1: "type' ?mem \<lparr>len = 0, pos = p1, last' = l\<rparr> = Inr (CHR ''l'')"
    unfolding b3 p1_def by (rule type_at)
  have inner: "next_d k2 List_T lib ?mem \<lparr>len = 0, pos = p1, last' = l\<rparr>
                 = Some (Inr (object lib ?mem p2 l), d)"
    using Suc.IH [OF small k2, of ?pre1 "CHR ''e'' # post"]
    unfolding b2 [symmetric] p1_def [symmetric] d_def [symmetric] s12 .
  have ob2: "object lib ?mem p2 l = \<lparr>len = 0, pos = p2, last' = l\<rparr>"
    unfolding b4 p2_def by (rule object_at_letter [OF lib]) simp
  have sk2: "skipall_from k2 List_T lib ?mem \<lparr>len = 0, pos = p2, last' = l\<rparr>
               = Some (Inr (p2 + 1), 0)"
    unfolding b4 k3 p2_def by (rule skipall_from_at_end)
  have sk1: "skipall_from (Suc k2) List_T lib ?mem \<lparr>len = 0, pos = p1, last' = l\<rparr>
               = Some (Inr (p2 + 1), d)"
    by (simp add: ty1 inner ob2 sk2 del: next_d.simps)
  have pd: "p0 + unat (word_of_nat (p2 + 1) - word_of_nat p0 :: size_t) = a + length pre + 2 * Suc (Suc m)"
  proof -
    have "(word_of_nat (p2 + 1) - word_of_nat p0 :: size_t) = word_of_nat (2 * Suc (Suc m))"
      by (simp add: p0_def p2_def length_nested)
    then show ?thesis
      using "Suc.prems"(1) by (simp only: unat_of_nat p0_def) simp
  qed
  have "next_d (Suc (Suc k2)) List_T lib ?mem \<lparr>len = 0, pos = p0, last' = l\<rparr>
          = Some (Inr (object lib ?mem (p0 + unat (word_of_nat (p2 + 1) - word_of_nat p0 :: size_t)) l), 2 + d)"
    by (simp add: ty construct_def s01 ob1 sk1 del: skipall_from.simps of_nat_Suc of_nat_add)
  then show ?case
    unfolding pd k by (simp add: p0_def d_def)
qed

lemma reads_no_number_decimal: "reads_no_number decimal"
  by (simp add: reads_no_number_def decimal_def dec_unsigned_def split: list.splits)

lemma next_d_nested_decimal:
  assumes "0 < n" and "2 * n < 2 ^ 64"
  shows "next_d (2 * n) List_T decimal \<lparr>start = 0, bytes = nested n\<rparr>
             \<lparr>len = 0, pos = 0, last' = 2 * n\<rparr>
           = Some (Inr \<lparr>len = 0, pos = 2 * n, last' = 2 * n\<rparr>, 2 * n)"
proof -
  from assms(1) obtain m where n: "n = Suc m"
    by (cases n) simp_all
  have "object decimal \<lparr>start = 0, bytes = nested n\<rparr> (2 * n) (2 * n)
          = \<lparr>len = 0, pos = 2 * n, last' = 2 * n\<rparr>"
    by (simp add: object_def decimal_def dec_unsigned_def cstr_def length_nested)
  then show ?thesis
    using next_d_nested [OF reads_no_number_decimal, of m "2 * n" 0 "[]" "[]" "2 * n"] assms(2)
    unfolding n by simp
qed

lemma nested_3: "nested 3 = ''llleee''"
  by (simp add: nested_def numeral_3_eq_3)

text \<open>
  C5, as stated, fails: skipping a list nested once puts 2 activations of
  \<open>next\<close>/\<open>skipall\<close> on the call stack, skipping one nested twice puts 4 there,
  and skipping one nested 100 deep puts 200 there. The depth of the call recursion
  follows the depth of the nesting.
\<close>

theorem skip_depth_follows_nesting:
  "next_d 2 List_T decimal \<lparr>start = 0, bytes = nested 1\<rparr> \<lparr>len = 0, pos = 0, last' = 2\<rparr>
     = Some (Inr \<lparr>len = 0, pos = 2, last' = 2\<rparr>, 2)
   \<and> next_d 4 List_T decimal \<lparr>start = 0, bytes = nested 2\<rparr> \<lparr>len = 0, pos = 0, last' = 4\<rparr>
     = Some (Inr \<lparr>len = 0, pos = 4, last' = 4\<rparr>, 4)
   \<and> next_d 200 List_T decimal \<lparr>start = 0, bytes = nested 100\<rparr> \<lparr>len = 0, pos = 0, last' = 200\<rparr>
     = Some (Inr \<lparr>len = 0, pos = 200, last' = 200\<rparr>, 200)"
  using next_d_nested_decimal [of 1] next_d_nested_decimal [of 2] next_d_nested_decimal [of 100]
  by simp

text \<open>
  C5, amended. \<open>next()\<close> advances past the current value, including nested lists and
  dicts, by the mutual recursion of \<open>next()\<close> and \<open>skipall()\<close>, not by a loop: on a list
  nested \<open>n\<close> deep it returns the cursor that stands right behind the list (\<open>2n\<close> bytes
  on), and at the deepest point \<open>2n\<close> activations of \<open>next\<close> and \<open>skipall\<close> are on the
  call stack. The call-recursion depth grows linearly with the nesting depth. (The bound
  \<open>k\<close> on calls and loop rounds is enough from \<open>2n\<close> on.)
\<close>

theorem next_recursion_depth_is_twice_nesting:
  assumes "reads_no_number lib" and "0 < n" and "2 * n < 2 ^ 64" and "2 * n \<le> k"
  shows "next_d k List_T lib \<lparr>start = a, bytes = nested n @ post\<rparr>
             \<lparr>len = 0, pos = a, last' = l\<rparr>
           = Some (Inr (object lib \<lparr>start = a, bytes = nested n @ post\<rparr> (a + 2 * n) l), 2 * n)"
proof -
  from assms(2) obtain m where n: "n = Suc m"
    by (cases n) simp_all
  show ?thesis
    using next_d_nested [OF assms(1), of m k a "[]" post l] assms(3,4)
    unfolding n by simp
qed

theorem next_recursion_depth_is_twice_nesting_witness:
  "reads_no_number decimal \<and> (0 :: nat) < 3 \<and> (2 :: nat) * 3 < 2 ^ 64 \<and> (2 :: nat) * 3 \<le> 6
   \<and> next_d 6 List_T decimal \<lparr>start = 100, bytes = ''llleee''\<rparr>
         \<lparr>len = 0, pos = 100, last' = 106\<rparr>
       = Some (Inr \<lparr>len = 0, pos = 106, last' = 106\<rparr>, 6)"
  using next_recursion_depth_is_twice_nesting
          [OF reads_no_number_decimal, of 3 6 100 "[]" 106]
  by (simp add: reads_no_number_decimal nested_3 object_def cstr_def)
     (simp add: decimal_def dec_unsigned_def)

section \<open>Properties of the frame assembler\<close>

lemma run_numeral:
  "run disp (numeral k) c pending =
     (case read_available disp c pending of
        Inl e \<Rightarrow> Inl e
      | Inr (c1, rest) \<Rightarrow> run disp (pred_numeral k) c1 rest)"
  by (simp add: numeral_eq_Suc)

lemma double_until_done:
  "\<not> newcap < request \<Longrightarrow> double_until newcap request = Some newcap"
  by (subst double_until.simps) simp

lemma double_until_step:
  "newcap < request \<Longrightarrow> double_until newcap request = double_until (newcap * 2) request"
  by (subst double_until.simps) simp

lemmas client_defs =
  read_available_def on_ready_def respond_with_def extend_length_def reserve_addnl_def
  reserve_reset_def calculate_reservation_def reset_def resize_def alloc_def free_def
  memcpy_def load_def store_def Header_length_def Header_field_def chunk_idx_def
  resolve_chunk_def slice_def base_def observe_def Let_def

lemmas client_inputs = client0_def heap0_def header_def chunk8_def

subsection \<open>Any stream\<close>

text \<open>
  First what allocation, copying and the reservation arithmetic do to a buffer in good
  standing, then one lemma for each way \<open>read_available\<close> can complete a read, then
  whole frames.
\<close>

lemma list_all_upt: "list_all P [p..<p + n] = (\<forall>a. p \<le> a \<and> a < p + n \<longrightarrow> P a)"
  by (auto simp: list_all_iff)

lemma map_upt_eq_iff:
  "(map f [p..<p + n] = xs) = (length xs = n \<and> (\<forall>i<n. xs ! i = f (p + i)))"
proof
  assume "map f [p..<p + n] = xs"
  then have "xs = map f [p..<p + n]" by simp
  then show "length xs = n \<and> (\<forall>i<n. xs ! i = f (p + i))"
    by simp
next
  assume a: "length xs = n \<and> (\<forall>i<n. xs ! i = f (p + i))"
  show "map f [p..<p + n] = xs"
  proof (rule nth_equalityI)
    show "length (map f [p..<p + n]) = length xs" using a by simp
  next
    fix i assume "i < length (map f [p..<p + n])"
    then have "i < n" by simp
    then show "map f [p..<p + n] ! i = xs ! i" using a by simp
  qed
qed

lemma load_Some_iff:
  "load h p n = Some xs \<longleftrightarrow>
     mapped h p n \<and> length xs = n \<and> (\<forall>i<n. xs ! i = the (cells h (p + i)))"
  unfolding load_def list_all_upt mapped_def [symmetric]
  by (simp add: map_upt_eq_iff)

lemma store_mapped:
  "mapped h p (length xs) \<Longrightarrow>
   store h p xs = Some (h\<lparr>cells := (\<lambda>a. if p \<le> a \<and> a < p + length xs then Some (xs ! (a - p)) else cells h a)\<rparr>)"
  by (simp add: store_def mapped_def list_all_upt)

lemma holds_mapped: "holds h p xs \<Longrightarrow> mapped h p (length xs)"
proof -
  assume a: "holds h p xs"
  { fix b assume "p \<le> b" "b < p + length xs"
    then have "b - p < length xs" "b = p + (b - p)" by simp_all
    with a have "cells h b \<noteq> None" unfolding holds_def by (metis option.distinct(1)) }
  then show ?thesis unfolding mapped_def by blast
qed

lemma load_holds: "holds h p xs \<Longrightarrow> load h p (length xs) = Some xs"
  by (simp add: load_Some_iff holds_mapped) (simp add: holds_def)

lemma holds_append: "holds h p (xs @ ys) = (holds h p xs \<and> holds h (p + length xs) ys)"
proof
  assume a: "holds h p (xs @ ys)"
  have "holds h p xs"
    unfolding holds_def
  proof (intro allI impI)
    fix i assume "i < length xs"
    with a have "cells h (p + i) = Some ((xs @ ys) ! i)" unfolding holds_def by simp
    with \<open>i < length xs\<close> show "cells h (p + i) = Some (xs ! i)" by (simp add: nth_append)
  qed
  moreover have "holds h (p + length xs) ys"
    unfolding holds_def
  proof (intro allI impI)
    fix i assume "i < length ys"
    with a have "cells h (p + (length xs + i)) = Some ((xs @ ys) ! (length xs + i))"
      unfolding holds_def by simp
    then show "cells h (p + length xs + i) = Some (ys ! i)" by (simp add: add.assoc)
  qed
  ultimately show "holds h p xs \<and> holds h (p + length xs) ys" ..
next
  assume a: "holds h p xs \<and> holds h (p + length xs) ys"
  show "holds h p (xs @ ys)"
    unfolding holds_def
  proof (intro allI impI)
    fix i assume i: "i < length (xs @ ys)"
    show "cells h (p + i) = Some ((xs @ ys) ! i)"
    proof (cases "i < length xs")
      case True
      with a show ?thesis unfolding holds_def by (simp add: nth_append)
    next
      case False
      with i have "i - length xs < length ys" by simp
      with a have "cells h (p + length xs + (i - length xs)) = Some (ys ! (i - length xs))"
        unfolding holds_def by blast
      with False show ?thesis by (simp add: nth_append)
    qed
  qed
qed

lemma holds_take_drop:
  "holds h p bs \<Longrightarrow> i + m \<le> length bs \<Longrightarrow> holds h (p + i) (take m (drop i bs))"
proof -
  assume a: "holds h p bs" and b: "i + m \<le> length bs"
  have "bs = take i bs @ take m (drop i bs) @ drop (i + m) bs"
    by (metis append_take_drop_id drop_drop add.commute)
  with a have "holds h p (take i bs @ take m (drop i bs) @ drop (i + m) bs)" by simp
  then have "holds h (p + length (take i bs)) (take m (drop i bs))"
    unfolding holds_append by blast
  with b show ?thesis by simp
qed

lemma unat_double: "unat c < 2 ^ 63 \<Longrightarrow> unat (c * 2 :: size_t) = 2 * unat c"
  by (simp add: unat_word_ariths)

lemma double_until_spec:
  "0 < unat c \<Longrightarrow> unat c < unat r \<Longrightarrow> unat r \<le> 2 ^ 62 \<Longrightarrow>
   \<exists>c'. double_until c r = Some c' \<and> unat r \<le> unat c' \<and> unat c' < 2 * unat r"
proof (induction "unat r - unat c" arbitrary: c rule: less_induct)
  case less
  have c2: "unat (c * 2) = 2 * unat c"
    using less.prems by (intro unat_double) simp
  have step: "double_until c r = double_until (c * 2) r"
    using less.prems(2) by (simp add: double_until_step word_less_nat_alt)
  show ?case
  proof (cases "unat (c * 2) < unat r")
    case True
    have "unat r - unat (c * 2) < unat r - unat c"
      using True less.prems(1) c2 by simp
    moreover have "0 < unat (c * 2)"
      using less.prems(1) c2 by simp
    ultimately obtain c' where
      "double_until (c * 2) r = Some c' \<and> unat r \<le> unat c' \<and> unat c' < 2 * unat r"
      using less.hyps [of "c * 2"] True less.prems(3) by blast
    with step show ?thesis by simp
  next
    case False
    then have "double_until (c * 2) r = Some (c * 2)"
      by (simp add: double_until_done word_less_nat_alt)
    moreover have "unat (c * 2) < 2 * unat r"
      using c2 less.prems(2) by simp
    ultimately show ?thesis
      using step False by simp
  qed
qed

lemma resize_keep:
  "newcap \<le> capacity sb \<Longrightarrow> resize h sb newcap = Inr (h, sb, buffer sb)"
  by (simp add: resize_def)

lemma resize_grow:
  assumes grow: "capacity sb < newcap"
      and ok: "buf_holds h sb bs"
      and ram: "unat newcap \<le> quota h"
  shows "\<exists>h'. resize h sb newcap = Inr (h', sb\<lparr>capacity := newcap, buffer := brk h\<rparr>, brk h)
              \<and> buf_holds h' (sb\<lparr>capacity := newcap, buffer := brk h\<rparr>) bs
              \<and> quota h \<le> quota h' + unat newcap"
proof -
  let ?n = "unat newcap"
  let ?old = "buffer sb"
  let ?new = "brk h"
  define h1 where "h1 = h\<lparr>cells := (\<lambda>a. if brk h \<le> a \<and> a < brk h + ?n then Some (fresh h a) else cells h a),
                         brk := brk h + ?n, quota := quota h - ?n\<rparr>"
  define h2 where "h2 = h1\<lparr>cells := (\<lambda>a. if ?new \<le> a \<and> a < ?new + length bs then Some (bs ! (a - ?new)) else cells h1 a)\<rparr>"
  define h3 where "h3 = free h2 ?old (unat (capacity sb))"
  from ok have len: "unat (length' sb) = length bs" and fits: "length bs \<le> unat (capacity sb)"
    and below: "?old + unat (capacity sb) \<le> brk h" and old: "holds h ?old bs"
    and cap0: "0 < unat (capacity sb)"
    by (simp_all add: buf_holds_def)
  from grow have capn: "unat (capacity sb) < ?n"
    by (simp add: word_less_nat_alt)
  have a: "alloc h ?n = Some (h1, ?new)"
    using ram by (simp add: alloc_def h1_def)
  have old1: "holds h1 ?old bs"
    using old below fits by (auto simp: holds_def h1_def)
  have new1: "mapped h1 ?new (length bs)"
    using fits capn by (auto simp: mapped_def h1_def)
  have st: "store h1 ?new bs = Some h2"
    using store_mapped [OF new1] by (simp add: h2_def)
  have m: "memcpy h1 ?new ?old (unat (length' sb)) = Some h2"
    using load_holds [OF old1] st by (simp add: memcpy_def len)
  have r: "resize h sb newcap = Inr (h3, sb\<lparr>capacity := newcap, buffer := brk h\<rparr>, brk h)"
    using grow a m by (simp add: resize_def h3_def not_le [symmetric])
  have new3: "holds h3 ?new bs"
    using below by (auto simp: holds_def h3_def h2_def free_def)
  have map3: "mapped h3 ?new ?n"
    using below by (auto simp: mapped_def h3_def h2_def h1_def free_def)
  have "buf_holds h3 (sb\<lparr>capacity := newcap, buffer := brk h\<rparr>) bs"
    using new3 map3 len fits capn cap0
    by (simp add: buf_holds_def h3_def h2_def h1_def free_def)
  moreover have "quota h \<le> quota h3 + ?n"
    using ram by (simp add: h3_def h2_def h1_def free_def)
  ultimately show ?thesis
    using r by blast
qed

lemma buf_holds_counter:
  "buf_holds h (sb\<lparr>consecutive_small_requests := n\<rparr>) bs = buf_holds h sb bs"
  by (simp add: buf_holds_def)

lemma calculate_reservation_spec:
  assumes cap0: "0 < unat (capacity sb)" and small: "unat request \<le> 2 ^ 62"
  shows "\<exists>newcap n. calculate_reservation sb request
                      = Inr (newcap, sb\<lparr>consecutive_small_requests := n\<rparr>)
                  \<and> (if unat (capacity sb) < unat request
                      then unat request \<le> unat newcap \<and> unat newcap < 2 * unat request
                      else newcap \<le> capacity sb)"
proof (cases "unat (capacity sb) < unat request")
  case True
  from double_until_spec [OF cap0 True small] obtain c' where
    "double_until (capacity sb) request = Some c'" "unat request \<le> unat c'"
    "unat c' < 2 * unat request"
    by blast
  with True show ?thesis
    by (auto simp: calculate_reservation_def Let_def word_less_nat_alt)
next
  case False
  have "min (capacity sb div 2) 1 \<le> capacity sb"
    using cap0 by (metis min.cobounded2 order_trans word_le_nat_alt unat_1 Suc_leI One_nat_def)
  with False show ?thesis
    by (auto simp: calculate_reservation_def Let_def word_less_nat_alt)
qed

lemma reserve_addnl_spec:
  assumes ok: "buf_holds h sb bs"
      and small: "length bs + unat request \<le> 2 ^ 62"
      and ram: "2 * (length bs + unat request) \<le> quota h"
  shows "\<exists>h' sb'. reserve_addnl h sb request = Inr (h', sb', buffer sb' + length bs)
                 \<and> buf_holds h' sb' bs
                 \<and> length bs + unat request \<le> unat (capacity sb')
                 \<and> quota h \<le> quota h' + 2 * (length bs + unat request)"
proof -
  let ?req = "request + length' sb"
  from ok have len: "unat (length' sb) = length bs" and cap0: "0 < unat (capacity sb)"
    by (simp_all add: buf_holds_def)
  have req: "unat ?req = unat request + length bs"
    using small len by (simp add: unat_word_ariths)
  have "unat ?req \<le> 2 ^ 62"
    using req small by simp
  from calculate_reservation_spec [OF cap0 this] obtain newcap n where
    calc: "calculate_reservation sb ?req = Inr (newcap, sb\<lparr>consecutive_small_requests := n\<rparr>)"
    and nc: "if unat (capacity sb) < unat ?req
             then unat ?req \<le> unat newcap \<and> unat newcap < 2 * unat ?req
             else newcap \<le> capacity sb"
    by blast
  let ?sb1 = "sb\<lparr>consecutive_small_requests := n\<rparr>"
  have ok1: "buf_holds h ?sb1 bs"
    using ok by (simp add: buf_holds_counter)
  show ?thesis
  proof (cases "unat (capacity sb) < unat ?req")
    case True
    with nc have n1: "unat ?req \<le> unat newcap" and n2: "unat newcap < 2 * unat ?req"
      by simp_all
    have grow: "capacity ?sb1 < newcap"
      using True n1 by (simp add: word_less_nat_alt)
    have "unat newcap \<le> quota h"
      using n2 req small ram by simp
    from resize_grow [OF grow ok1 this] obtain h' where
      r: "resize h ?sb1 newcap = Inr (h', ?sb1\<lparr>capacity := newcap, buffer := brk h\<rparr>, brk h)"
      and ok': "buf_holds h' (?sb1\<lparr>capacity := newcap, buffer := brk h\<rparr>) bs"
      and q: "quota h \<le> quota h' + unat newcap"
      by blast
    have "quota h \<le> quota h' + 2 * (length bs + unat request)"
      using q n2 req by simp
    then show ?thesis
      using calc r ok' n1 req len by (auto simp: reserve_addnl_def)
  next
    case False
    with nc have "newcap \<le> capacity ?sb1"
      by simp
    then have "resize h ?sb1 newcap = Inr (h, ?sb1, buffer ?sb1)"
      by (rule resize_keep)
    then show ?thesis
      using calc ok1 False req len by (auto simp: reserve_addnl_def)
  qed
qed

lemma resize_length:
  "resize h sb n = Inr (h', sb', p) \<Longrightarrow> length' sb' = length' sb \<and> p = buffer sb'"
  by (auto simp: resize_def split: if_splits option.splits)

lemma calculate_reservation_length:
  "calculate_reservation sb n = Inr (c, sb1) \<Longrightarrow> length' sb1 = length' sb"
  by (auto simp: calculate_reservation_def Let_def split: if_splits option.splits)

lemma reserve_reset_as_addnl: "reserve_reset h sb r = reserve_addnl h (reset sb) r"
proof (cases "calculate_reservation (reset sb) r")
  case (Inl e)
  then show ?thesis by (simp add: reserve_reset_def reserve_addnl_def reset_def)
next
  case (Inr x)
  obtain c sb1 where x: "x = (c, sb1)" by (cases x)
  have l1: "length' sb1 = 0"
    using calculate_reservation_length [of "reset sb" r c sb1] Inr x by (simp add: reset_def)
  show ?thesis
  proof (cases "resize h sb1 c")
    case (Inl e)
    with Inr x show ?thesis by (simp add: reserve_reset_def reserve_addnl_def reset_def)
  next
    case (Inr y)
    obtain h' sb' p where y: "y = (h', sb', p)" by (cases y)
    from resize_length [of h sb1 c h' sb' p] Inr y l1 have "length' sb' = 0" by simp
    with \<open>calculate_reservation (reset sb) r = Inr x\<close> x Inr y show ?thesis
      by (simp add: reserve_reset_def reserve_addnl_def reset_def)
  qed
qed

lemma buf_holds_reset: "buf_holds h sb bs \<Longrightarrow> buf_holds h (reset sb) []"
  by (simp add: buf_holds_def reset_def holds_def)

lemma reserve_reset_spec:
  assumes ok: "buf_holds h sb bs"
      and small: "unat request \<le> 2 ^ 62"
      and ram: "2 * unat request \<le> quota h"
  shows "\<exists>h' sb'. reserve_reset h sb request = Inr (h', sb', buffer sb')
                 \<and> buf_holds h' sb' []
                 \<and> unat request \<le> unat (capacity sb')"
  using reserve_addnl_spec [OF buf_holds_reset [OF ok], of request] small ram
  by (auto simp: reserve_reset_as_addnl)

lemma unat_of_nat_small: "n < 2 ^ 64 \<Longrightarrow> unat (of_nat n :: size_t) = n"
  by (simp add: unat_of_nat)

lemma read_available_full:
  assumes aw: "awaiting c bs n" and n0: "0 < n" and n64: "n < 2 ^ 64" and got: "length got = n"
  shows "\<exists>h1. filled (c\<lparr>ram := h1\<rparr>) bs got \<and> quota h1 = quota (ram c)
            \<and> read_available disp c (got @ rest)
               = (case on_ready disp
                         (c\<lparr>ram := h1,
                            read_handler := \<lparr>offset = of_nat n, remaining = 0,
                                             rbuffer = buffer (pktbuf c) + length bs\<rparr>\<rparr>)
                         (of_nat n) (buffer (pktbuf c) + length bs) of
                    Inl e \<Rightarrow> Inl e
                  | Inr c2 \<Rightarrow> Inr (c2, rest))"
proof -
  let ?p = "buffer (pktbuf c) + length bs"
  define h1 where "h1 = (ram c)\<lparr>cells := (\<lambda>a. if ?p \<le> a \<and> a < ?p + length got then Some (got ! (a - ?p)) else cells (ram c) a)\<rparr>"
  from aw have ok: "buf_holds (ram c) (pktbuf c) bs"
    and rh: "read_handler c = \<lparr>offset = 0, remaining = of_nat n, rbuffer = ?p\<rparr>"
    and fits: "length bs + n \<le> unat (capacity (pktbuf c))"
    by (simp_all add: awaiting_def)
  from ok have m: "mapped (ram c) (buffer (pktbuf c)) (unat (capacity (pktbuf c)))"
    and old: "holds (ram c) (buffer (pktbuf c)) bs"
    by (simp_all add: buf_holds_def)
  have "mapped (ram c) ?p (length got)"
    using m fits got by (auto simp: mapped_def)
  from store_mapped [OF this] have st: "store (ram c) ?p got = Some h1"
    by (simp add: h1_def)
  have tk: "take (unat (of_nat n :: size_t)) (got @ rest) = got"
    using got n64 by (simp add: unat_of_nat_small)
  have ne: "got \<noteq> []"
    using got n0 by auto
  have "holds h1 (buffer (pktbuf c)) bs"
    using old by (auto simp: holds_def h1_def)
  moreover have "mapped h1 (buffer (pktbuf c)) (unat (capacity (pktbuf c)))"
    using m by (auto simp: mapped_def h1_def)
  moreover have "holds h1 ?p got"
    by (auto simp: holds_def h1_def)
  ultimately have f: "filled (c\<lparr>ram := h1\<rparr>) bs got"
    using ok fits got by (simp add: filled_def buf_holds_def h1_def)
  have q: "quota h1 = quota (ram c)"
    by (simp add: h1_def)
  have "read_available disp c (got @ rest)
               = (case on_ready disp
                         (c\<lparr>ram := h1,
                            read_handler := \<lparr>offset = of_nat n, remaining = 0, rbuffer = ?p\<rparr>\<rparr>)
                         (of_nat n) ?p of
                    Inl e \<Rightarrow> Inl e
                  | Inr c2 \<Rightarrow> Inr (c2, rest))"
    unfolding read_available_def Let_def rh
    by (simp add: tk ne st got del: take_append split: sum.splits)
  with f q show ?thesis by blast
qed

lemma filled_extend:
  assumes f: "filled c bs got" and small: "length bs + length got < 2 ^ 64"
  shows "buf_holds (ram c) (extend_length (pktbuf c) (of_nat (length got))) (bs @ got)"
proof -
  from f have ok: "buf_holds (ram c) (pktbuf c) bs"
    and new: "holds (ram c) (buffer (pktbuf c) + length bs) got"
    and fits: "length bs + length got \<le> unat (capacity (pktbuf c))"
    by (simp_all add: filled_def)
  from ok have len: "unat (length' (pktbuf c)) = length bs"
    by (simp add: buf_holds_def)
  have "unat (length' (pktbuf c) + of_nat (length got)) = length bs + length got"
    using small len by (simp add: unat_word_ariths unat_of_nat)
  then show ?thesis
    using ok new fits by (simp add: buf_holds_def extend_length_def holds_append)
qed

lemma of_nat_eq_8: "n < 2 ^ 64 \<Longrightarrow> (of_nat n = (8 :: size_t)) = (n = 8)"
proof
  assume "n < 2 ^ 64" and "of_nat n = (8 :: size_t)"
  then have "unat (of_nat n :: size_t) = unat (8 :: size_t)" by simp
  with \<open>n < 2 ^ 64\<close> show "n = 8" by (simp add: unat_of_nat)
qed simp

lemma Header_length_small: "unat (Header_length hdr) < 2 ^ 32"
  using unsigned_less [of "Header_length hdr", where 'a = nat] by simp

lemma unat_ucast_Header_length:
  "unat (ucast (Header_length hdr) :: size_t) = unat (Header_length hdr)"
proof -
  have "unat (Header_length hdr) < 2 ^ 32"
    by (rule Header_length_small)
  then have "unat (Header_length hdr) < 2 ^ 64"
    by simp
  then show ?thesis
    by (simp add: unsigned_ucast_eq take_bit_nat_eq_self)
qed

lemma on_ready_header:
  assumes f: "filled c bs hdr" and l: "length hdr = 8"
      and small: "length bs \<le> 2 ^ 61"
      and ram: "2 * (length bs + 8 + unat (Header_length hdr)) \<le> quota (ram c)"
  shows "\<exists>c2. on_ready disp c 8 (buffer (pktbuf c) + length bs) = Inr c2
              \<and> awaiting c2 (bs @ hdr) (unat (Header_length hdr))
              \<and> waiting_chunk c2 = waiting_chunk c \<and> trace c2 = trace c
              \<and> quota (ram c) \<le> quota (ram c2) + 2 * (length bs + 8 + unat (Header_length hdr))"
proof -
  let ?pb = "extend_length (pktbuf c) 8"
  let ?n = "ucast (Header_length hdr) :: size_t"
  have ok: "buf_holds (ram c) ?pb (bs @ hdr)"
    using filled_extend [OF f] small l by simp
  from f have "holds (ram c) (buffer (pktbuf c) + length bs) hdr"
    by (simp add: filled_def)
  from load_holds [OF this] l have ld: "load (ram c) (buffer (pktbuf c) + length bs) 8 = Some hdr"
    by simp
  have s: "length (bs @ hdr) + unat ?n \<le> 2 ^ 62"
    using small l Header_length_small [of hdr] by (simp add: unat_ucast_Header_length)
  have r: "2 * (length (bs @ hdr) + unat ?n) \<le> quota (ram c)"
    using ram l by (simp add: unat_ucast_Header_length)
  from reserve_addnl_spec [OF ok s r] obtain h' sb' where
    res: "reserve_addnl (ram c) ?pb ?n = Inr (h', sb', buffer sb' + length (bs @ hdr))"
    and ok': "buf_holds h' sb' (bs @ hdr)"
    and fits: "length (bs @ hdr) + unat ?n \<le> unat (capacity sb')"
    and q: "quota (ram c) \<le> quota h' + 2 * (length (bs @ hdr) + unat ?n)"
    by blast
  have "on_ready disp c 8 (buffer (pktbuf c) + length bs)
          = Inr (c\<lparr>pktbuf := ?pb, ram := h', pktbuf := sb',
                   read_handler := respond_with (read_handler c) ?n
                                     (buffer sb' + length (bs @ hdr))\<rparr>)"
    using ld res by (simp add: on_ready_def Let_def)
  moreover have "awaiting (c\<lparr>pktbuf := ?pb, ram := h', pktbuf := sb',
                   read_handler := respond_with (read_handler c) ?n
                                     (buffer sb' + length (bs @ hdr))\<rparr>)
                   (bs @ hdr) (unat (Header_length hdr))"
    using ok' fits by (simp add: awaiting_def respond_with_def unat_ucast_Header_length)
  ultimately show ?thesis
    using q l by (simp add: unat_ucast_Header_length)
qed

lemma on_ready_side:
  assumes f: "filled c (bs0 @ hdr) got" and l: "length hdr = 8"
      and side: "Header_field hdr chunk_idx \<noteq> CHR 0x00"
      and n8: "length got \<noteq> 8"
      and small: "length bs0 + length got \<le> 2 ^ 61"
      and ram: "2 * (length bs0 + length got + 16) \<le> quota (ram c)"
  shows "\<exists>c2. on_ready disp c (of_nat (length got)) (buffer (pktbuf c) + length (bs0 @ hdr)) = Inr c2
              \<and> awaiting c2 (bs0 @ hdr @ got) 8
              \<and> waiting_chunk c2 = Some \<lparr>istart = of_nat (length bs0 + 8), ilength = of_nat (length got)\<rparr>
              \<and> trace c2 = trace c
              \<and> quota (ram c) \<le> quota (ram c2) + 2 * (length bs0 + length got + 16)"
proof -
  let ?n = "of_nat (length got) :: size_t"
  let ?pb = "extend_length (pktbuf c) ?n"
  let ?buf = "buffer (pktbuf c) + length (bs0 @ hdr)"
  have ok: "buf_holds (ram c) ?pb ((bs0 @ hdr) @ got)"
    using filled_extend [OF f] small l by simp
  have ne: "?n \<noteq> 8"
    using n8 small by (simp add: of_nat_eq_8)
  from f have "holds (ram c) (buffer (pktbuf c)) (bs0 @ hdr)"
    by (simp add: filled_def buf_holds_def)
  then have "holds (ram c) (buffer (pktbuf c) + length bs0) hdr"
    by (simp add: holds_append)
  from load_holds [OF this] l have ld: "load (ram c) (?buf - 8) 8 = Some hdr"
    by simp
  have s: "length ((bs0 @ hdr) @ got) + unat (8 :: size_t) \<le> 2 ^ 62"
    using small l by simp
  have r: "2 * (length ((bs0 @ hdr) @ got) + unat (8 :: size_t)) \<le> quota (ram c)"
    using ram l by simp
  from reserve_addnl_spec [OF ok s r] obtain h' sb' where
    res: "reserve_addnl (ram c) ?pb 8 = Inr (h', sb', buffer sb' + length ((bs0 @ hdr) @ got))"
    and ok': "buf_holds h' sb' ((bs0 @ hdr) @ got)"
    and fits: "length ((bs0 @ hdr) @ got) + unat (8 :: size_t) \<le> unat (capacity sb')"
    and q: "quota (ram c) \<le> quota h' + 2 * (length ((bs0 @ hdr) @ got) + unat (8 :: size_t))"
    by blast
  let ?c2 = "c\<lparr>pktbuf := ?pb, ram := h', pktbuf := sb',
               waiting_chunk := Some \<lparr>istart = of_nat ?buf - of_nat (base ?pb), ilength = ?n\<rparr>,
               read_handler := respond_with (read_handler c) 8
                                 (buffer sb' + length ((bs0 @ hdr) @ got))\<rparr>"
  have "on_ready disp c ?n ?buf = Inr ?c2"
    using ld res ne side l by (simp add: on_ready_def Let_def)
  moreover have "awaiting ?c2 (bs0 @ hdr @ got) 8"
    using ok' fits by (simp add: awaiting_def respond_with_def)
  moreover have "of_nat ?buf - of_nat (base ?pb) = (of_nat (length bs0 + 8) :: size_t)"
    using l by (simp add: base_def extend_length_def)
  ultimately show ?thesis
    using q l by simp
qed

lemma dispatched_append: "dispatched (xs @ ys) = dispatched xs @ dispatched ys"
  by (induction xs rule: dispatched.induct) simp_all

lemma on_ready_primary:
  assumes f: "filled c (bs0 @ hdr) got" and l: "length hdr = 8"
      and primary: "Header_field hdr chunk_idx = CHR 0x00"
      and n8: "length got \<noteq> 8"
      and small: "length bs0 + length got \<le> 2 ^ 61"
      and ram: "16 \<le> quota (ram c)"
  shows "\<exists>c2. on_ready disp c (of_nat (length got)) (buffer (pktbuf c) + length (bs0 @ hdr)) = Inr c2
              \<and> awaiting c2 [] 8
              \<and> waiting_chunk c2 = None
              \<and> dispatched (trace c2)
                  = dispatched (trace c)
                    @ [(got, map_option bytes
                               (resolve_chunk
                                  (c\<lparr>pktbuf := extend_length (pktbuf c) (of_nat (length got))\<rparr>)))]"
proof -
  let ?n = "of_nat (length got) :: size_t"
  let ?pb = "extend_length (pktbuf c) ?n"
  let ?buf = "buffer (pktbuf c) + length (bs0 @ hdr)"
  let ?c = "c\<lparr>pktbuf := ?pb\<rparr>"
  let ?raw = "\<lparr>start = ?buf, bytes = got\<rparr>"
  have ok: "buf_holds (ram c) ?pb ((bs0 @ hdr) @ got)"
    using filled_extend [OF f] small l by simp
  have ne: "?n \<noteq> 8"
    using n8 small by (simp add: of_nat_eq_8)
  have un: "unat ?n = length got"
    using small by (simp add: unat_of_nat_small)
  from f have all: "holds (ram c) (buffer (pktbuf c)) (bs0 @ hdr)"
    and new: "holds (ram c) ?buf got"
    by (simp_all add: filled_def buf_holds_def)
  from all have "holds (ram c) (buffer (pktbuf c) + length bs0) hdr"
    by (simp add: holds_append)
  from load_holds [OF this] l have ld: "load (ram c) (?buf - 8) 8 = Some hdr"
    by simp
  from load_holds [OF new] have raw: "load (ram c) ?buf (unat ?n) = Some got"
    by (simp add: un)
  define ok' where "ok' = disp ?c ?raw"
  define tr where "tr = trace c @ [Dispatch ?raw (resolve_chunk ?c) ok']
                         @ (if ok' then [] else [Invalid_packet_warning ?n])"
  have s: "unat (8 :: size_t) \<le> 2 ^ 62"
    by simp
  have r: "2 * unat (8 :: size_t) \<le> quota (ram c)"
    using ram by simp
  from reserve_reset_spec [OF ok s r] obtain h' sb' where
    res: "reserve_reset (ram c) ?pb 8 = Inr (h', sb', buffer sb')"
    and ok2: "buf_holds h' sb' []"
    and fits: "unat (8 :: size_t) \<le> unat (capacity sb')"
    by blast
  let ?c2 = "c\<lparr>pktbuf := ?pb, trace := tr, ram := h', pktbuf := sb', waiting_chunk := None,
               read_handler := respond_with (read_handler c) 8 (buffer sb')\<rparr>"
  have "on_ready disp c ?n ?buf = Inr ?c2"
    using ld raw res ne primary l
    by (simp add: on_ready_def Let_def ok'_def tr_def)
  moreover have "awaiting ?c2 [] 8"
    using ok2 fits by (simp add: awaiting_def respond_with_def)
  moreover have "dispatched tr
                   = dispatched (trace c) @ [(got, map_option bytes (resolve_chunk ?c))]"
    unfolding tr_def dispatched_append by simp
  ultimately show ?thesis
    by simp
qed

lemma resolve_chunk_held:
  assumes f: "filled c bs got"
      and wc: "waiting_chunk c = Some \<lparr>istart = of_nat i, ilength = of_nat m\<rparr>"
      and inside: "i + m \<le> length bs"
      and small: "length bs < 2 ^ 64"
  shows "resolve_chunk (c\<lparr>pktbuf := extend_length (pktbuf c) n\<rparr>)
           = Some \<lparr>start = buffer (pktbuf c) + i, bytes = take m (drop i bs)\<rparr>"
proof -
  from f have all: "holds (ram c) (buffer (pktbuf c)) bs"
    by (simp add: filled_def buf_holds_def)
  have im: "i < 2 ^ 64" "m < 2 ^ 64"
    using inside small by simp_all
  have tl: "length (take m (drop i bs)) = m"
    using inside by simp
  have "holds (ram c) (buffer (pktbuf c) + i) (take m (drop i bs))"
    using holds_take_drop [OF all inside] .
  from load_holds [OF this]
  have "load (ram c) (buffer (pktbuf c) + i) m = Some (take m (drop i bs))"
    unfolding tl .
  then show ?thesis
    using wc im by (simp add: resolve_chunk_def slice_def base_def extend_length_def unat_of_nat_small)
qed

lemma filled_read_handler: "filled (c\<lparr>read_handler := r\<rparr>) bs got = filled c bs got"
  by (simp add: filled_def)

lemma read_header:
  assumes aw: "awaiting c bs 8" and l: "length hdr = 8"
      and small: "length bs \<le> 2 ^ 61"
      and ram: "2 * (length bs + 8 + unat (Header_length hdr)) \<le> quota (ram c)"
  shows "\<exists>c2. read_available disp c (hdr @ rest) = Inr (c2, rest)
              \<and> awaiting c2 (bs @ hdr) (unat (Header_length hdr))
              \<and> waiting_chunk c2 = waiting_chunk c \<and> trace c2 = trace c
              \<and> quota (ram c) \<le> quota (ram c2) + 2 * (length bs + 8 + unat (Header_length hdr))"
proof -
  let ?p = "buffer (pktbuf c) + length bs"
  from read_available_full [OF aw _ _ l, of disp rest] obtain h1 where
    f: "filled (c\<lparr>ram := h1\<rparr>) bs hdr" and q: "quota h1 = quota (ram c)"
    and ra: "read_available disp c (hdr @ rest)
               = (case on_ready disp
                         (c\<lparr>ram := h1,
                            read_handler := \<lparr>offset = 8, remaining = 0, rbuffer = ?p\<rparr>\<rparr>)
                         8 ?p of
                    Inl e \<Rightarrow> Inl e
                  | Inr c2 \<Rightarrow> Inr (c2, rest))"
    by auto
  let ?c1 = "c\<lparr>ram := h1, read_handler := \<lparr>offset = 8, remaining = 0, rbuffer = ?p\<rparr>\<rparr>"
  have f1: "filled ?c1 bs hdr"
    using f by (simp add: filled_read_handler)
  have r1: "2 * (length bs + 8 + unat (Header_length hdr)) \<le> quota (ram ?c1)"
    using ram q by simp
  from on_ready_header [OF f1 l small r1, of disp] ra q show ?thesis
    by auto
qed

lemma read_side:
  assumes aw: "awaiting c (bs0 @ hdr) (length got)" and l: "length hdr = 8"
      and side: "Header_field hdr chunk_idx \<noteq> CHR 0x00"
      and n0: "got \<noteq> []" and n8: "length got \<noteq> 8"
      and small: "length bs0 + length got \<le> 2 ^ 61"
      and ram: "2 * (length bs0 + length got + 16) \<le> quota (ram c)"
  shows "\<exists>c2. read_available disp c (got @ rest) = Inr (c2, rest)
              \<and> awaiting c2 (bs0 @ hdr @ got) 8
              \<and> waiting_chunk c2 = Some \<lparr>istart = of_nat (length bs0 + 8), ilength = of_nat (length got)\<rparr>
              \<and> trace c2 = trace c
              \<and> quota (ram c) \<le> quota (ram c2) + 2 * (length bs0 + length got + 16)"
proof -
  let ?p = "buffer (pktbuf c) + length (bs0 @ hdr)"
  let ?n = "of_nat (length got) :: size_t"
  have pos: "0 < length got" using n0 by simp
  have lt: "length got < 2 ^ 64" using small by simp
  from read_available_full [OF aw pos lt refl, of disp rest] obtain h1 where
    f: "filled (c\<lparr>ram := h1\<rparr>) (bs0 @ hdr) got" and q: "quota h1 = quota (ram c)"
    and ra: "read_available disp c (got @ rest)
               = (case on_ready disp
                         (c\<lparr>ram := h1,
                            read_handler := \<lparr>offset = ?n, remaining = 0, rbuffer = ?p\<rparr>\<rparr>)
                         ?n ?p of
                    Inl e \<Rightarrow> Inl e
                  | Inr c2 \<Rightarrow> Inr (c2, rest))"
    by auto
  let ?c1 = "c\<lparr>ram := h1, read_handler := \<lparr>offset = ?n, remaining = 0, rbuffer = ?p\<rparr>\<rparr>"
  have f1: "filled ?c1 (bs0 @ hdr) got"
    using f by (simp add: filled_read_handler)
  have r1: "2 * (length bs0 + length got + 16) \<le> quota (ram ?c1)"
    using ram q by simp
  have p1: "buffer (pktbuf ?c1) + length (bs0 @ hdr) = ?p"
    by simp
  from on_ready_side [OF f1 l side n8 small r1, of disp] ra q show ?thesis
    unfolding p1 by auto
qed

lemma read_primary:
  assumes aw: "awaiting c (bs0 @ hdr) (length got)" and l: "length hdr = 8"
      and primary: "Header_field hdr chunk_idx = CHR 0x00"
      and n0: "got \<noteq> []" and n8: "length got \<noteq> 8"
      and wc: "waiting_chunk c = Some \<lparr>istart = of_nat i, ilength = of_nat m\<rparr>"
      and inside: "i + m \<le> length (bs0 @ hdr)"
      and small: "length bs0 + length got \<le> 2 ^ 61"
      and ram: "16 \<le> quota (ram c)"
  shows "\<exists>c2. read_available disp c (got @ rest) = Inr (c2, rest)
              \<and> awaiting c2 [] 8
              \<and> waiting_chunk c2 = None
              \<and> dispatched (trace c2)
                  = dispatched (trace c) @ [(got, Some (take m (drop i (bs0 @ hdr))))]"
proof -
  let ?p = "buffer (pktbuf c) + length (bs0 @ hdr)"
  let ?n = "of_nat (length got) :: size_t"
  have pos: "0 < length got" using n0 by simp
  have lt: "length got < 2 ^ 64" using small by simp
  from read_available_full [OF aw pos lt refl, of disp rest] obtain h1 where
    f: "filled (c\<lparr>ram := h1\<rparr>) (bs0 @ hdr) got" and q: "quota h1 = quota (ram c)"
    and ra: "read_available disp c (got @ rest)
               = (case on_ready disp
                         (c\<lparr>ram := h1,
                            read_handler := \<lparr>offset = ?n, remaining = 0, rbuffer = ?p\<rparr>\<rparr>)
                         ?n ?p of
                    Inl e \<Rightarrow> Inl e
                  | Inr c2 \<Rightarrow> Inr (c2, rest))"
    by auto
  let ?c1 = "c\<lparr>ram := h1, read_handler := \<lparr>offset = ?n, remaining = 0, rbuffer = ?p\<rparr>\<rparr>"
  have f1: "filled ?c1 (bs0 @ hdr) got"
    using f by (simp add: filled_read_handler)
  have r1: "16 \<le> quota (ram ?c1)"
    using ram q by simp
  have w1: "waiting_chunk ?c1 = Some \<lparr>istart = of_nat i, ilength = of_nat m\<rparr>"
    using wc by simp
  have s1: "length (bs0 @ hdr) < 2 ^ 64"
    using small l by simp
  have p1: "buffer (pktbuf ?c1) + length (bs0 @ hdr) = ?p"
    by simp
  from on_ready_primary [OF f1 l primary n8 small r1, of disp] ra show ?thesis
    unfolding p1 resolve_chunk_held [OF f1 w1 inside s1] by auto
qed

lemma read_primary_alone:
  assumes aw: "awaiting c (bs0 @ hdr) (length got)" and l: "length hdr = 8"
      and primary: "Header_field hdr chunk_idx = CHR 0x00"
      and n0: "got \<noteq> []" and n8: "length got \<noteq> 8"
      and wc: "waiting_chunk c = None"
      and small: "length bs0 + length got \<le> 2 ^ 61"
      and ram: "16 \<le> quota (ram c)"
  shows "\<exists>c2. read_available disp c (got @ rest) = Inr (c2, rest)
              \<and> awaiting c2 [] 8
              \<and> waiting_chunk c2 = None
              \<and> dispatched (trace c2) = dispatched (trace c) @ [(got, None)]"
proof -
  let ?p = "buffer (pktbuf c) + length (bs0 @ hdr)"
  let ?n = "of_nat (length got) :: size_t"
  have pos: "0 < length got" using n0 by simp
  have lt: "length got < 2 ^ 64" using small by simp
  from read_available_full [OF aw pos lt refl, of disp rest] obtain h1 where
    f: "filled (c\<lparr>ram := h1\<rparr>) (bs0 @ hdr) got" and q: "quota h1 = quota (ram c)"
    and ra: "read_available disp c (got @ rest)
               = (case on_ready disp
                         (c\<lparr>ram := h1,
                            read_handler := \<lparr>offset = ?n, remaining = 0, rbuffer = ?p\<rparr>\<rparr>)
                         ?n ?p of
                    Inl e \<Rightarrow> Inl e
                  | Inr c2 \<Rightarrow> Inr (c2, rest))"
    by auto
  let ?c1 = "c\<lparr>ram := h1, read_handler := \<lparr>offset = ?n, remaining = 0, rbuffer = ?p\<rparr>\<rparr>"
  have f1: "filled ?c1 (bs0 @ hdr) got"
    using f by (simp add: filled_read_handler)
  have r1: "16 \<le> quota (ram ?c1)"
    using ram q by simp
  have w1: "resolve_chunk (?c1\<lparr>pktbuf := extend_length (pktbuf ?c1) ?n\<rparr>) = None"
    using wc by (simp add: resolve_chunk_def)
  have p1: "buffer (pktbuf ?c1) + length (bs0 @ hdr) = ?p"
    by simp
  from on_ready_primary [OF f1 l primary n8 small r1, of disp] ra show ?thesis
    unfolding p1 w1 by auto
qed

lemma side_chunk_reaches_handler:
  assumes start: "awaiting c [] 8"
      and h1: "length hdr1 = 8" "Header_field hdr1 chunk_idx \<noteq> CHR 0x00"
              "unat (Header_length hdr1) = length side"
      and s: "side \<noteq> []" "length side \<noteq> 8"
      and h2: "length hdr2 = 8" "Header_field hdr2 chunk_idx = CHR 0x00"
              "unat (Header_length hdr2) = length payload"
      and p: "payload \<noteq> []" "length payload \<noteq> 8"
      and ram: "8 * (length side + length payload + 16) \<le> quota (ram c)"
  shows "observe (run disp 4 c (hdr1 @ side @ hdr2 @ payload @ rest))
           = Inr (dispatched (trace c) @ [(payload, Some side)], None, 8, rest)"
proof -
  have L: "length side < 2 ^ 32"
    using Header_length_small [of hdr1] h1(3) by simp
  have N: "length payload < 2 ^ 32"
    using Header_length_small [of hdr2] h2(3) by simp
  have "2 * (length ([] :: string) + 8 + unat (Header_length hdr1)) \<le> quota (ram c)"
    using ram h1(3) by simp
  from read_header [OF start h1(1) _ this, of disp "side @ hdr2 @ payload @ rest"]
  obtain c1 where
    r1: "read_available disp c (hdr1 @ side @ hdr2 @ payload @ rest)
           = Inr (c1, side @ hdr2 @ payload @ rest)"
    and a1: "awaiting c1 ([] @ hdr1) (length side)"
    and t1: "trace c1 = trace c"
    and q1: "quota (ram c) \<le> quota (ram c1) + 2 * (8 + length side)"
    using h1(3) by auto
  have "length ([] :: string) + length side \<le> 2 ^ 61"
    using L by simp
  moreover have "2 * (length ([] :: string) + length side + 16) \<le> quota (ram c1)"
    using ram q1 by simp
  ultimately obtain c2 where
    r2: "read_available disp c1 (side @ hdr2 @ payload @ rest) = Inr (c2, hdr2 @ payload @ rest)"
    and a2: "awaiting c2 ([] @ hdr1 @ side) 8"
    and w2: "waiting_chunk c2 = Some \<lparr>istart = of_nat 8, ilength = of_nat (length side)\<rparr>"
    and t2: "trace c2 = trace c1"
    and q2: "quota (ram c1) \<le> quota (ram c2) + 2 * (length side + 16)"
    using read_side [OF a1 h1(1) h1(2) s, of disp "hdr2 @ payload @ rest"] by auto
  have a2': "awaiting c2 (hdr1 @ side) 8"
    using a2 by simp
  have "length (hdr1 @ side) \<le> 2 ^ 61"
    using L h1(1) by simp
  moreover have "2 * (length (hdr1 @ side) + 8 + unat (Header_length hdr2)) \<le> quota (ram c2)"
    using ram q1 q2 h1(1) h2(3) by simp
  ultimately obtain c3 where
    r3: "read_available disp c2 (hdr2 @ payload @ rest) = Inr (c3, payload @ rest)"
    and a3: "awaiting c3 ((hdr1 @ side) @ hdr2) (length payload)"
    and w3: "waiting_chunk c3 = waiting_chunk c2"
    and t3: "trace c3 = trace c2"
    and q3: "quota (ram c2) \<le> quota (ram c3) + 2 * (length (hdr1 @ side) + 8 + length payload)"
    using read_header [OF a2' h2(1), of disp "payload @ rest"] h2(3) by auto
  have w3': "waiting_chunk c3 = Some \<lparr>istart = of_nat 8, ilength = of_nat (length side)\<rparr>"
    using w3 w2 by simp
  have i3: "8 + length side \<le> length ((hdr1 @ side) @ hdr2)"
    using h1(1) by simp
  have s3: "length (hdr1 @ side) + length payload \<le> 2 ^ 61"
    using L N h1(1) by simp
  have q4: "16 \<le> quota (ram c3)"
    using ram q1 q2 q3 h1(1) by simp
  from read_primary [OF a3 h2(1) h2(2) p w3' i3 s3 q4, of disp rest]
  obtain c4 where
    r4: "read_available disp c3 (payload @ rest) = Inr (c4, rest)"
    and a4: "awaiting c4 [] 8"
    and w4: "waiting_chunk c4 = None"
    and t4: "dispatched (trace c4)
               = dispatched (trace c3) @ [(payload, Some (take (length side) (drop 8 ((hdr1 @ side) @ hdr2))))]"
    by auto
  have "take (length side) (drop 8 ((hdr1 @ side) @ hdr2)) = side"
    using h1(1) by simp
  with t4 t3 t2 t1 have t: "dispatched (trace c4) = dispatched (trace c) @ [(payload, Some side)]"
    by simp
  have "run disp (Suc (Suc (Suc (Suc 0)))) c (hdr1 @ side @ hdr2 @ payload @ rest) = Inr (c4, rest)"
    by (simp add: r1 r2 r3 r4)
  moreover have "(4 :: nat) = Suc (Suc (Suc (Suc 0)))"
    by simp
  ultimately have "run disp 4 c (hdr1 @ side @ hdr2 @ payload @ rest) = Inr (c4, rest)"
    by (simp only:)
  then show ?thesis
    using t w4 a4 by (simp add: observe_def awaiting_def)
qed

lemma primary_frame_is_dispatched:
  assumes start: "awaiting c [] 8" and wc: "waiting_chunk c = None"
      and h: "length hdr = 8" "Header_field hdr chunk_idx = CHR 0x00"
             "unat (Header_length hdr) = length payload"
      and p: "payload \<noteq> []" "length payload \<noteq> 8"
      and ram: "2 * (length payload + 16) \<le> quota (ram c)"
  shows "observe (run disp 2 c (hdr @ payload @ rest))
           = Inr (dispatched (trace c) @ [(payload, None)], None, 8, rest)"
proof -
  have N: "length payload < 2 ^ 32"
    using Header_length_small [of hdr] h(3) by simp
  have "2 * (length ([] :: string) + 8 + unat (Header_length hdr)) \<le> quota (ram c)"
    using ram h(3) by simp
  from read_header [OF start h(1) _ this, of disp "payload @ rest"]
  obtain c1 where
    r1: "read_available disp c (hdr @ payload @ rest) = Inr (c1, payload @ rest)"
    and a1: "awaiting c1 ([] @ hdr) (length payload)"
    and w1: "waiting_chunk c1 = None"
    and t1: "trace c1 = trace c"
    and q1: "quota (ram c) \<le> quota (ram c1) + 2 * (8 + length payload)"
    using h(3) wc by auto
  have s1: "length ([] :: string) + length payload \<le> 2 ^ 61"
    using N by simp
  have q2: "16 \<le> quota (ram c1)"
    using ram q1 by simp
  from read_primary_alone [OF a1 h(1) h(2) p w1 s1 q2, of disp rest]
  obtain c2 where
    r2: "read_available disp c1 (payload @ rest) = Inr (c2, rest)"
    and a2: "awaiting c2 [] 8"
    and w2: "waiting_chunk c2 = None"
    and t2: "dispatched (trace c2) = dispatched (trace c1) @ [(payload, None)]"
    by auto
  have "run disp (Suc (Suc 0)) c (hdr @ payload @ rest) = Inr (c2, rest)"
    by (simp add: r1 r2)
  moreover have "(2 :: nat) = Suc (Suc 0)"
    by simp
  ultimately have "run disp 2 c (hdr @ payload @ rest) = Inr (c2, rest)"
    by (simp only:)
  then show ?thesis
    using t2 t1 w2 a2 by (simp add: observe_def awaiting_def)
qed

lemma eight_bytes_are_taken_for_a_header:
  assumes start: "awaiting c [] 8"
      and h: "length hdr = 8" "unat (Header_length hdr) = 8"
      and p: "length payload = 8"
      and ram: "2 * (unat (Header_length payload) + 32) \<le> quota (ram c)"
  shows "observe (run disp 2 c (hdr @ payload @ rest))
           = Inr (dispatched (trace c), waiting_chunk c, ucast (Header_length payload), rest)"
proof -
  have "2 * (length ([] :: string) + 8 + unat (Header_length hdr)) \<le> quota (ram c)"
    using ram h(2) by simp
  from read_header [OF start h(1) _ this, of disp "payload @ rest"]
  obtain c1 where
    r1: "read_available disp c (hdr @ payload @ rest) = Inr (c1, payload @ rest)"
    and a1: "awaiting c1 hdr 8"
    and w1: "waiting_chunk c1 = waiting_chunk c"
    and t1: "trace c1 = trace c"
    and q1: "quota (ram c) \<le> quota (ram c1) + 32"
    using h(2) by auto
  have s1: "length hdr \<le> 2 ^ 61"
    using h(1) by simp
  have q2: "2 * (length hdr + 8 + unat (Header_length payload)) \<le> quota (ram c1)"
    using ram q1 h(1) by simp
  from read_header [OF a1 p s1 q2, of disp rest]
  obtain c2 where
    r2: "read_available disp c1 (payload @ rest) = Inr (c2, rest)"
    and a2: "awaiting c2 (hdr @ payload) (unat (Header_length payload))"
    and w2: "waiting_chunk c2 = waiting_chunk c1"
    and t2: "trace c2 = trace c1"
    by auto
  have "run disp (Suc (Suc 0)) c (hdr @ payload @ rest) = Inr (c2, rest)"
    by (simp add: r1 r2)
  moreover have "(2 :: nat) = Suc (Suc 0)"
    by simp
  ultimately have "run disp 2 c (hdr @ payload @ rest) = Inr (c2, rest)"
    by (simp only:)
  then show ?thesis
    using t2 t1 w2 w1 a2 by (simp add: observe_def awaiting_def)
qed

lemma client0_awaiting: "awaiting client0 [] 8"
  by (simp add: awaiting_def buf_holds_def mapped_def holds_def client0_def heap0_def)

lemma side_chunk_of_five_bytes_reaches_handler:
  "observe (run disp 4 client0
              (header (CHR 0x01) (CHR 0x05) @ ''ABCDE''
               @ header (CHR 0x00) (CHR 0x10) @ ''l4:drawi1e3:abce'' @ rest))
     = Inr ([(''l4:drawi1e3:abce'', Some ''ABCDE'')], None, 8, rest)"
  using side_chunk_reaches_handler
          [OF client0_awaiting, of "header (CHR 0x01) (CHR 0x05)" "''ABCDE''"
              "header (CHR 0x00) (CHR 0x10)" "''l4:drawi1e3:abce''" disp rest]
  by (simp add: header_def Header_length_def Header_field_def chunk_idx_def client0_def heap0_def)

subsection \<open>The streams of eight bytes\<close>

text \<open>
  C2. The stream is one primary frame (chunk index 0) whose payload is the eight bytes
  \<open>l4:pinge\<close>, a list whose first element is the string \<open>ping\<close>. After the header
  and the payload have been read no dispatch call has been made: \<open>_on_ready\<close> takes
  every read of 8 bytes for a header, reads the bytes \<open>inge\<close> as the length of a
  payload and waits for 1768843109 more bytes. With the nine-byte payload
  \<open>l4:pingee\<close> the one dispatch call is made. For any client between two frames,
  \<open>eight_bytes_are_taken_for_a_header\<close> is the first half and
  \<open>primary_frame_is_dispatched\<close> the second: a payload of any length but 8 is
  dispatched once.
\<close>

theorem eight_byte_payload_is_not_dispatched:
  "observe (run disp 2 client0 (header (CHR 0x00) (CHR 0x08) @ ''l4:pinge''))
     = Inr ([], None, 1768843109, [])
   \<and> observe (run disp 2 client0 (header (CHR 0x00) (CHR 0x09) @ ''l4:pingee''))
     = Inr ([(''l4:pingee'', None)], None, 8, [])"
  by (simp add: run_numeral client_defs client_inputs double_until_done double_until_step)

text \<open>
  C3. The stream is a side-chunk frame (chunk index 1) with the eight bytes
  \<open>chunk8\<close> as payload, followed by a primary frame with a payload of 16 bytes. The
  side chunk is read as a header that announces 24 bytes; no pair is recorded for it.
  The 24 bytes of the primary frame, header included, are then dispatched as if they
  were a message, with no side chunk to resolve; the primary message itself is never
  dispatched. With a side chunk of five bytes the primary message is dispatched and
  the chunk resolves to the five bytes, although the buffer has moved twice in
  between; \<open>side_chunk_reaches_handler\<close> shows as much for every side chunk and
  every payload that are not eight bytes long.
\<close>

theorem eight_byte_side_chunk_is_lost:
  "observe (run disp 3 client0
              (header (CHR 0x01) (CHR 0x08) @ chunk8
               @ header (CHR 0x00) (CHR 0x10) @ ''l4:drawi1e3:abce''))
     = Inr ([(header (CHR 0x00) (CHR 0x10) @ ''l4:drawi1e3:abce'', None)], None, 8, [])
   \<and> observe (run disp 4 client0
                (header (CHR 0x01) (CHR 0x05) @ ''ABCDE''
                 @ header (CHR 0x00) (CHR 0x10) @ ''l4:drawi1e3:abce''))
     = Inr ([(''l4:drawi1e3:abce'', Some ''ABCDE'')], None, 8, [])"
  by (simp add: run_numeral client_defs client_inputs double_until_done double_until_step)

end
